theory Spec2Isabelle
  imports Complex_Main "HOL-Library.Sublist"
begin

section \<open>Strings\<close>

text \<open>
  Python strings are modelled as ASCII \<open>char list\<close>s. \<open>lower\<close> is \<open>str.lower\<close>,
  \<open>strip\<close> is \<open>str.strip\<close> (the ASCII white space of Python: tab to carriage return,
  the four separators 0x1C to 0x1F and the blank), \<open>contains k s\<close> is \<open>k in s\<close>.
  Floats are modelled as exact reals.
\<close>

definition lower_char :: "char \<Rightarrow> char" where
  "lower_char c =
     (let n = (of_char c :: nat) in if 65 \<le> n \<and> n \<le> 90 then char_of (n + 32) else c)"

definition lower :: "string \<Rightarrow> string" where
  "lower s = map lower_char s"

definition is_space :: "char \<Rightarrow> bool" where
  "is_space c = (let n = (of_char c :: nat) in (9 \<le> n \<and> n \<le> 13) \<or> (28 \<le> n \<and> n \<le> 32))"

definition strip :: "string \<Rightarrow> string" where
  "strip s = rev (dropWhile is_space (rev (dropWhile is_space s)))"

definition contains :: "string \<Rightarrow> string \<Rightarrow> bool" where
  "contains k s = sublist k s"

text \<open>\<open>d.get(key) or ""\<close> for a field that holds a string or \<open>None\<close>.\<close>

definition or_empty :: "string option \<Rightarrow> string" where
  "or_empty v = (case v of None \<Rightarrow> [] | Some s \<Rightarrow> s)"

text \<open>\<open>float(d.get(key) or 0)\<close> for a field that holds a number or \<open>None\<close>.\<close>

definition or_zero :: "real option \<Rightarrow> real" where
  "or_zero v = (case v of None \<Rightarrow> 0 | Some r \<Rightarrow> r)"

section \<open>Element records\<close>

text \<open>
  One entry of \<open>perception.json\<close>. The perception module writes every key; \<open>role\<close> may be
  \<open>None\<close>, and a reader uses \<open>.get\<close>, so each field is optional here.
\<close>

record element =
  el_tag :: "string option"
  el_role :: "string option"
  el_text :: "string option"
  el_aria_label :: "string option"
  el_title :: "string option"
  el_tooltip :: "string option"
  el_x :: "real option"
  el_y :: "real option"
  el_width :: "real option"
  el_height :: "real option"

section \<open>Normalizer (runner/locator.py)\<close>

definition SYNONYMS :: "(string \<times> string list) list" where
  "SYNONYMS =
     [(''click'', [''press'', ''tap'', ''select'', ''choose'']),
      (''open'', [''navigate'', ''go to'']),
      (''create'', [''new'', ''add'', ''+'']),
      (''delete'', [''remove'', ''trash'', ''discard'']),
      (''settings'', [''preferences'', ''options'']),
      (''name'', [''title'']),
      (''project'', [''projects''])]"

definition STOPWORDS :: "string list" where
  "STOPWORDS =
     [''the'', ''a'', ''an'', ''to'', ''on'', ''in'', ''of'', ''for'', ''with'', ''and'',
      ''or'', ''by'', ''is'', ''be'', ''button'', ''option'', ''menu'', ''item'', ''page'',
      ''view'', ''prompt'', ''dialog'', ''modal'']"

text \<open>
  \<open>QUOTED_RE\<close> is \<open>'([^']{1,200})'|"([^"]{1,200})"\<close>. After an opening quote \<open>q\<close> the
  pattern matches exactly when the run of characters other than \<open>q\<close> that follows has
  between 1 and 200 characters and is closed by \<open>q\<close>; the result is the run and the rest
  of the string behind the closing quote.
\<close>

definition match_quoted :: "char \<Rightarrow> string \<Rightarrow> (string \<times> string) option" where
  "match_quoted q rest =
     (let run = takeWhile (\<lambda>c. c \<noteq> q) rest; after = dropWhile (\<lambda>c. c \<noteq> q) rest
      in if 1 \<le> length run \<and> length run \<le> 200 \<and> after \<noteq> [] then Some (run, tl after)
         else None)"

lemma match_quoted_shorter:
  "match_quoted q rest = Some (run, rest') \<Longrightarrow> length rest' < Suc (length rest)"
proof -
  assume m: "match_quoted q rest = Some (run, rest')"
  have "length (tl (dropWhile (\<lambda>c. c \<noteq> q) rest)) \<le> length rest"
    using length_dropWhile_le [of "\<lambda>c. c \<noteq> q" rest] by simp
  with m show ?thesis
    by (auto simp: match_quoted_def Let_def split: if_splits)
qed

text \<open>\<open>QUOTED_RE.finditer\<close>: the leftmost matches, none overlapping another.\<close>

function finditer_quoted :: "string \<Rightarrow> string list" where
  "finditer_quoted [] = []"
| "finditer_quoted (c # cs) =
     (if c = CHR 0x27 \<or> c = CHR 0x22 then
        (case match_quoted c cs of
           Some (run, rest) \<Rightarrow> run # finditer_quoted rest
         | None \<Rightarrow> finditer_quoted cs)
      else finditer_quoted cs)"
  by pat_completeness auto
termination
  by (relation "measure length") (auto dest: match_quoted_shorter)

definition extract_quoted :: "string \<Rightarrow> string list" where
  "extract_quoted s = map strip (finditer_quoted s)"

text \<open>
  \<open>re.sub(rf"\b{re.escape(w)}\b", base, s)\<close>. \<open>is_word\<close> is the class \<open>\w\<close>; a boundary
  \<open>\b\<close> lies between two positions of which exactly one holds a word character (the
  outside of the string counts as none). The flag \<open>pw\<close> says whether the character before
  the current position, in the string as it was given, is a word character.
\<close>

definition is_word :: "char \<Rightarrow> bool" where
  "is_word c =
     (let n = (of_char c :: nat)
      in (48 \<le> n \<and> n \<le> 57) \<or> (65 \<le> n \<and> n \<le> 90) \<or> n = 95 \<or> (97 \<le> n \<and> n \<le> 122))"

definition starts_word :: "string \<Rightarrow> bool" where
  "starts_word s = (case s of [] \<Rightarrow> False | c # _ \<Rightarrow> is_word c)"

definition word_match :: "string \<Rightarrow> bool \<Rightarrow> string \<Rightarrow> bool" where
  "word_match w pw s =
     (w \<noteq> [] \<and> prefix w s \<and> pw \<noteq> starts_word w
      \<and> is_word (last w) \<noteq> starts_word (drop (length w) s))"

function re_sub_word :: "string \<Rightarrow> string \<Rightarrow> bool \<Rightarrow> string \<Rightarrow> string" where
  "re_sub_word w base pw [] = []"
| "re_sub_word w base pw (c # cs) =
     (if word_match w pw (c # cs)
      then base @ re_sub_word w base (is_word (last w)) (drop (length w) (c # cs))
      else c # re_sub_word w base (is_word c) cs)"
  by pat_completeness auto
termination
  by (relation "measure (\<lambda>(w, base, pw, s). length s)") (auto simp: word_match_def)

definition normalize_intent :: "string \<Rightarrow> string" where
  "normalize_intent intent =
     fold (\<lambda>(base, ws) s. fold (\<lambda>w s'. re_sub_word w base False s') ws s) SYNONYMS
       (lower intent)"

text \<open>\<open>re.findall(r"[a-z0-9+]+", s.lower())\<close> without the stop words.\<close>

definition is_token_char :: "char \<Rightarrow> bool" where
  "is_token_char c =
     (let n = (of_char c :: nat)
      in (97 \<le> n \<and> n \<le> 122) \<or> (48 \<le> n \<and> n \<le> 57) \<or> n = 43)"

fun findall_runs :: "string \<Rightarrow> string \<Rightarrow> string list" where
  "findall_runs cur [] = (if cur = [] then [] else [cur])"
| "findall_runs cur (c # cs) =
     (if is_token_char c then findall_runs (cur @ [c]) cs
      else (if cur = [] then [] else [cur]) @ findall_runs [] cs)"

definition tokens :: "string \<Rightarrow> string list" where
  "tokens s = filter (\<lambda>t. t \<notin> set STOPWORDS) (findall_runs [] (lower s))"

section \<open>Similarity helpers\<close>

text \<open>
  \<open>difflib.SequenceMatcher(None, a, b).ratio()\<close> belongs to the Python library, not to
  the repository: it is the parameter \<open>sm\<close> of everything below. Its results lie
  between 0 and 1.
\<close>

type_synonym matcher = "string \<Rightarrow> string \<Rightarrow> real"

definition matcher_bounded :: "matcher \<Rightarrow> bool" where
  "matcher_bounded sm = (\<forall>a b. 0 \<le> sm a b \<and> sm a b \<le> 1)"

definition ratio :: "matcher \<Rightarrow> string \<Rightarrow> string \<Rightarrow> real" where
  "ratio sm a b = (if a = [] \<or> b = [] then 0 else sm a b)"

definition fieldwise_fuzzy :: "matcher \<Rightarrow> string \<Rightarrow> string list \<Rightarrow> real" where
  "fieldwise_fuzzy sm intent_norm flds =
     fold (\<lambda>f best.
             if f = [] then best
             else (let r = ratio sm intent_norm (lower f) in if r > best then r else best))
       flds 0"

definition token_overlap :: "string list \<Rightarrow> string list \<Rightarrow> real" where
  "token_overlap intent_tokens el_tokens =
     (if intent_tokens = [] then 0
      else real (card (set intent_tokens \<inter> set el_tokens))
           / real (max 1 (card (set intent_tokens))))"

section \<open>Dialog geometry helpers\<close>

type_synonym bounds = "real \<times> real \<times> real \<times> real"

definition find_dialog_bounds :: "element list \<Rightarrow> bounds option" where
  "find_dialog_bounds perceived =
     fst (fold (\<lambda>el (best, best_area).
                  if lower (or_empty (el_role el)) = ''dialog'' then
                    (let x = or_zero (el_x el); y = or_zero (el_y el);
                         w = or_zero (el_width el); h = or_zero (el_height el);
                         area = max 0 w * max 0 h
                     in if area > best_area \<and> w > 10 \<and> h > 10 then (Some (x, y, w, h), area)
                        else (best, best_area))
                  else (best, best_area))
            perceived (None, 0))"

definition inside :: "bounds \<Rightarrow> element \<Rightarrow> bool" where
  "inside b el =
     (case b of (x, y, w, h) \<Rightarrow>
        (let ex = or_zero (el_x el); ey = or_zero (el_y el);
             ew = or_zero (el_width el); eh = or_zero (el_height el)
         in ex \<ge> x \<and> ey \<ge> y \<and> ex + ew \<le> x + w \<and> ey + eh \<le> y + h))"

section \<open>Scoring\<close>

definition join_fields :: "string list \<Rightarrow> string" where
  "join_fields flds = (case flds of [] \<Rightarrow> [] | f # fs \<Rightarrow> f @ concat (map (\<lambda>g. '' '' @ g) fs))"

definition score_element ::
  "matcher \<Rightarrow> string \<Rightarrow> string list \<Rightarrow> string list \<Rightarrow> element \<Rightarrow> bounds option \<Rightarrow> real" where
  "score_element sm intent_norm intent_tokens quoted el dialog_bounds =
     (let text = strip (or_empty (el_text el));
          aria = strip (or_empty (el_aria_label el));
          title = strip (or_empty (el_title el));
          tip = strip (or_empty (el_tooltip el));
          role = lower (or_empty (el_role el));
          tag = lower (or_empty (el_tag el))
      in if text = [] \<and> aria = [] \<and> title = [] \<and> tip = [] then - 1
         else
           (let flds = [text, aria, title, tip];
                fuzzy = fieldwise_fuzzy sm intent_norm flds;
                el_tokens = tokens (join_fields flds);
                overlap = token_overlap intent_tokens el_tokens;
                score = 0.55 * fuzzy + 0.35 * overlap;
                score =
                  (if \<exists>k \<in> set [''click'', ''open'', ''create'', ''delete'', ''submit''].
                        contains k intent_norm
                   then
                     (let score = (if role \<in> set [''button'', ''menuitem'', ''link'']
                                   then score + 0.06 else score)
                      in if tag \<in> set [''button'', ''a''] then score + 0.03 else score)
                   else score);
                score =
                  (if contains ''fill'' intent_norm \<or> contains ''input'' intent_norm
                      \<or> contains ''type'' intent_norm
                   then
                     (if role \<in> set [''textbox'', ''combobox'']
                         \<or> tag \<in> set [''input'', ''textarea'']
                      then score + 0.10 else score)
                   else score);
                score =
                  (case dialog_bounds of
                     Some b \<Rightarrow> (if inside b el then score + 0.08 else score - 0.04)
                   | None \<Rightarrow> score);
                score =
                  (case quoted of
                     q0 # _ \<Rightarrow>
                       (let q = lower q0
                        in if q \<noteq> [] \<and> (\<exists>f \<in> set flds. q = lower (strip f))
                           then score + 0.30 else score)
                   | [] \<Rightarrow> score);
                long_text = (length text > 120 \<or> length (join_fields flds) > 160)
            in if long_text then score - 0.05 else score))"

section \<open>Public API of the locator\<close>

text \<open>
  The perception file is the argument \<open>perceived\<close>: \<open>None\<close> when it cannot be read,
  else the list of element records it holds. \<open>scored.sort(key=..., reverse=True)\<close> is
  stable and descending, which is \<open>sort_key\<close> on the negated score.
\<close>

definition score_all :: "matcher \<Rightarrow> string \<Rightarrow> element list \<Rightarrow> (real \<times> element) list" where
  "score_all sm intent perceived =
     (let intent_norm = normalize_intent intent;
          intent_tokens = tokens intent_norm;
          quoted = extract_quoted intent;
          dialog_bounds = find_dialog_bounds perceived
      in filter (\<lambda>(s, el). s > - 1)
           (map (\<lambda>el. (score_element sm intent_norm intent_tokens quoted el dialog_bounds, el))
              perceived))"

definition locate_element_for_intent ::
  "matcher \<Rightarrow> string \<Rightarrow> element list option \<Rightarrow> element option" where
  "locate_element_for_intent sm intent perception =
     (case perception of
        None \<Rightarrow> None
      | Some perceived \<Rightarrow>
          (case sort_key (\<lambda>p. - fst p) (score_all sm intent perceived) of
             [] \<Rightarrow> None
           | (best_score, best_el) # _ \<Rightarrow> Some best_el))"

definition locate_top_candidates ::
  "matcher \<Rightarrow> string \<Rightarrow> element list option \<Rightarrow> int \<Rightarrow> element list" where
  "locate_top_candidates sm intent perception k =
     (case perception of
        None \<Rightarrow> []
      | Some perceived \<Rightarrow>
          map snd (take (nat (max 1 k)) (sort_key (\<lambda>p. - fst p) (score_all sm intent perceived))))"

section \<open>The browser and the file system\<close>

text \<open>
  The page, the browser and the files under the dataset directory are outside the
  program. Every call that reaches them is an event of a trace, in the order the
  program makes them, and what such a call answers is a function of the trace up to
  and including that call: any behaviour of the page is one such function. The calls
  are taken to come back; a fault of the browser that no handler catches ends the run
  and is outside the model, except for the executor, whose exceptions the recovery
  loop handles.
\<close>

record exec_result =
  res_status :: string
  res_action :: string
  res_label :: "string option"
  res_aria_label :: "string option"
  res_error :: "string option"
  res_used_text :: "string option"
  res_tag :: "string option"

record executor_meta =
  em_action :: string
  em_used_text :: "string option"
  em_tag :: "string option"
  em_label :: "string option"
  em_aria_label :: "string option"
  em_error :: "string option"

record step_record =
  sr_step_id :: nat
  sr_intent :: string
  sr_expected_state :: string
  sr_executor_status :: string
  sr_verified :: bool
  sr_executor_meta :: "executor_meta option"

datatype event =
    EvStabilize
  | EvWaitForDialog nat
  | EvClosePopups
  | EvPerceive nat
  | EvExecute element string nat
  | EvEscape
  | EvDialogText
  | EvPageUrl
  | EvTextboxValue string
  | EvFirstTextbox
  | EvElementExists string string
  | EvTextVisible string
  | EvPersist step_record
  | EvSleep

record env =
  perception_file :: "event list \<Rightarrow> element list option"
  executor :: "event list \<Rightarrow> exec_result option"
  probe :: "event list \<Rightarrow> bool"
  dialog_text :: "event list \<Rightarrow> string option"
  page_url :: "event list \<Rightarrow> string option"

text \<open>
  \<open>perception_file\<close>: what \<open>json.load\<close> reads from the step's \<open>perception.json\<close>
  (\<open>None\<close> when the file cannot be read). \<open>executor\<close>: what \<open>execute_action\<close>
  returns (\<open>None\<close> when it raises). \<open>probe\<close>: whether a wait or an existence check of
  the page succeeds. \<open>dialog_text\<close>: the inner text of the first dialog (\<open>None\<close> when
  there is none or reading it raises). \<open>page_url\<close>: \<open>page.url\<close> (\<open>None\<close> when
  reading it raises).
\<close>

definition any_in :: "string list \<Rightarrow> string \<Rightarrow> bool" where
  "any_in ks s = (\<exists>k \<in> set ks. contains k s)"

section \<open>Verification router (runner/verifier.py)\<close>

definition extract_all_quoted :: "string \<Rightarrow> string list" where
  "extract_all_quoted s = map strip (finditer_quoted s)"

definition verify_dialog_open :: "env \<Rightarrow> string option \<Rightarrow> event list \<Rightarrow> bool \<times> event list" where
  "verify_dialog_open env must_contain tr =
     (let tr = tr @ [EvWaitForDialog 3000]
      in if \<not> probe env tr then (False, tr)
         else if or_empty must_contain = [] then (True, tr)
         else
           (let tr = tr @ [EvDialogText]
            in case dialog_text env tr of
                 None \<Rightarrow> (False, tr)
               | Some txt \<Rightarrow> (contains (lower (or_empty must_contain)) (lower txt), tr)))"

definition verify_text_visible :: "env \<Rightarrow> string \<Rightarrow> event list \<Rightarrow> bool \<times> event list" where
  "verify_text_visible env t tr = (let tr = tr @ [EvTextVisible t] in (probe env tr, tr))"

definition verify_textbox_value :: "env \<Rightarrow> string \<Rightarrow> event list \<Rightarrow> bool \<times> event list" where
  "verify_textbox_value env expected tr =
     (let tr = tr @ [EvTextboxValue expected] in (probe env tr, tr))"

definition first_textbox :: "env \<Rightarrow> event list \<Rightarrow> bool \<times> event list" where
  "first_textbox env tr = (let tr = tr @ [EvFirstTextbox] in (probe env tr, tr))"

definition verify_element_exists ::
  "env \<Rightarrow> string \<Rightarrow> string \<Rightarrow> event list \<Rightarrow> bool \<times> event list" where
  "verify_element_exists env role name tr =
     (let tr = tr @ [EvElementExists role name] in (probe env tr, tr))"

definition verify_url_contains :: "env \<Rightarrow> string \<Rightarrow> event list \<Rightarrow> bool \<times> event list" where
  "verify_url_contains env fragment tr =
     (let tr = tr @ [EvPageUrl]
      in case page_url env tr of
           None \<Rightarrow> (False, tr)
         | Some url \<Rightarrow> (contains (lower fragment) (lower url), tr))"

fun any_text_visible :: "env \<Rightarrow> string list \<Rightarrow> event list \<Rightarrow> bool \<times> event list" where
  "any_text_visible env [] tr = (False, tr)"
| "any_text_visible env (q # qs) tr =
     (case verify_text_visible env q tr of
        (True, tr') \<Rightarrow> (True, tr')
      | (False, tr') \<Rightarrow> any_text_visible env qs tr')"

definition verify_step :: "env \<Rightarrow> string \<Rightarrow> string \<Rightarrow> event list \<Rightarrow> bool \<times> event list" where
  "verify_step env intent expected_state tr =
     (let es = strip expected_state;
          el = lower es;
          quoted = (if extract_all_quoted es \<noteq> [] then extract_all_quoted es
                    else extract_all_quoted intent)
      in if any_in [''dialog'', ''modal'', ''prompt''] el then
           verify_dialog_open env (case quoted of [] \<Rightarrow> None | q # _ \<Rightarrow> Some q) tr
         else if any_in [''url'', ''location'', ''path'', ''navigate'', ''navigated''] el
                 \<and> quoted \<noteq> [] then
           verify_url_contains env (hd quoted) tr
         else if any_in [''field'', ''input'', ''textbox'', ''editor''] el
                 \<and> any_in [''contains'', ''set to'', ''value'', ''filled''] el then
           (case quoted of
              q # _ \<Rightarrow> (if q \<noteq> [] then verify_textbox_value env q tr else first_textbox env tr)
            | [] \<Rightarrow> first_textbox env tr)
         else if any_in [''button'', ''link'', ''menuitem'', ''tab''] el \<and> quoted \<noteq> [] then
           (let role = (if contains ''button'' el then ''button''
                        else if contains ''link'' el then ''link''
                        else if contains ''menuitem'' el then ''menuitem''
                        else if contains ''tab'' el then ''tab'' else ''button'')
            in verify_element_exists env role (hd quoted) tr)
         else if any_in [''visible'', ''appears'', ''shown'', ''displayed'', ''listed'',
                         ''present''] el \<and> quoted \<noteq> [] then
           verify_text_visible env (hd quoted) tr
         else if quoted \<noteq> [] then any_text_visible env quoted tr
         else (True, tr))"

section \<open>Recovery (runner/recovery.py)\<close>

record recovery_result =
  recovered :: bool
  attempts :: int
  result :: "exec_result option"

definition gentle_stabilize :: "event list \<Rightarrow> event list" where
  "gentle_stabilize tr = tr @ [EvStabilize]"

definition close_easy_popups :: "event list \<Rightarrow> event list" where
  "close_easy_popups tr = tr @ [EvClosePopups]"

definition wait_if_dialog_expected :: "string \<Rightarrow> string \<Rightarrow> event list \<Rightarrow> event list" where
  "wait_if_dialog_expected intent expected tr =
     (if any_in [''dialog'', ''modal'', ''prompt''] (lower (intent @ '' '' @ expected))
      then tr @ [EvWaitForDialog 2500] else tr)"

definition capture_perception :: "nat \<Rightarrow> event list \<Rightarrow> event list" where
  "capture_perception step_id tr = tr @ [EvPerceive step_id]"

definition bbox :: "element \<Rightarrow> real option \<times> real option \<times> real option \<times> real option" where
  "bbox el = (el_x el, el_y el, el_width el, el_height el)"

text \<open>
  \<open>_is_same\<close>: an element record is never the empty dictionary, so \<open>not a\<close> holds for
  \<open>None\<close> only.
\<close>

definition is_same :: "element option \<Rightarrow> element option \<Rightarrow> bool" where
  "is_same a b =
     (case (a, b) of
        (Some a', Some b') \<Rightarrow> bbox a' = bbox b'
      | _ \<Rightarrow> False)"

definition recovery_candidates :: "matcher \<Rightarrow> string \<Rightarrow> element list option \<Rightarrow> element list" where
  "recovery_candidates sm intent perception =
     (let candidates = locate_top_candidates sm intent perception 5
      in if candidates = [] then
           (case locate_element_for_intent sm intent perception of
              Some el \<Rightarrow> [el]
            | None \<Rightarrow> [])
         else candidates)"

definition order_candidates :: "element option \<Rightarrow> element list \<Rightarrow> element list" where
  "order_candidates previous_element candidates =
     (let ordered = filter (\<lambda>el. \<not> is_same previous_element (Some el)) candidates
      in if ordered = [] \<and> candidates \<noteq> [] then candidates else ordered)"

text \<open>
  The loop over \<open>ordered\<close>: the first success ends it; a failure and an exception of
  the executor go on to the next candidate.
\<close>

fun try_candidates ::
  "env \<Rightarrow> string \<Rightarrow> nat \<Rightarrow> element list \<Rightarrow> event list \<Rightarrow> exec_result option \<times> event list" where
  "try_candidates env intent step_idx [] tr = (None, tr)"
| "try_candidates env intent step_idx (el # els) tr =
     (let tr = tr @ [EvExecute el intent step_idx]
      in case executor env tr of
           Some res \<Rightarrow>
             (if res_status res = ''success'' then (Some res, tr)
              else try_candidates env intent step_idx els tr)
         | None \<Rightarrow> try_candidates env intent step_idx els tr)"

definition enter_attempt :: "nat \<Rightarrow> string \<Rightarrow> string \<Rightarrow> event list \<Rightarrow> event list" where
  "enter_attempt step_idx intent expected tr =
     capture_perception step_idx
       (close_easy_popups (wait_if_dialog_expected intent expected (gentle_stabilize tr)))"

function recover_step ::
  "matcher \<Rightarrow> env \<Rightarrow> nat \<Rightarrow> string \<Rightarrow> string \<Rightarrow> element option \<Rightarrow> int \<Rightarrow> int \<Rightarrow> event list
     \<Rightarrow> recovery_result \<times> event list" where
  "recover_step sm env step_idx intent expected previous_element attempt max_attempts tr =
     (if attempt > max_attempts
      then (\<lparr>recovered = False, attempts = attempt - 1, result = None\<rparr>, tr)
      else
        (let tr1 = enter_attempt step_idx intent expected tr;
             candidates = recovery_candidates sm intent (perception_file env tr1);
             ordered = order_candidates previous_element candidates
         in case try_candidates env intent step_idx ordered tr1 of
              (Some res, tr2) \<Rightarrow> (\<lparr>recovered = True, attempts = attempt, result = Some res\<rparr>, tr2)
            | (None, tr2) \<Rightarrow>
                recover_step sm env step_idx intent expected previous_element (attempt + 1)
                  max_attempts (tr2 @ [EvEscape])))"
  by pat_completeness auto
termination
  by (relation "measure (\<lambda>(sm, env, step_idx, intent, expected, previous_element, attempt,
                           max_attempts, tr). nat (max_attempts + 1 - attempt))") auto

declare recover_step.simps [simp del]

section \<open>Step orchestrator (runner/orchestrator.py)\<close>

record plan_step =
  ps_intent :: "string option"
  ps_step :: "string option"
  ps_expected_state :: "string option"

datatype run_outcome = Completed "event list" | Aborted "event list"

definition run_step :: "matcher \<Rightarrow> env \<Rightarrow> nat \<Rightarrow> plan_step \<Rightarrow> event list \<Rightarrow> run_outcome" where
  "run_step sm env step_idx step tr =
     (let intent = (if or_empty (ps_intent step) \<noteq> [] then or_empty (ps_intent step)
                    else or_empty (ps_step step));
          expected = or_empty (ps_expected_state step);
          tr = capture_perception step_idx tr
      in case locate_element_for_intent sm intent (perception_file env tr) of
           None \<Rightarrow>
             Completed
               (tr @ [EvPersist \<lparr>sr_step_id = step_idx, sr_intent = intent,
                                 sr_expected_state = expected,
                                 sr_executor_status = ''skipped_no_element'',
                                 sr_verified = False, sr_executor_meta = None\<rparr>])
         | Some element \<Rightarrow>
             (let tr = tr @ [EvExecute element intent step_idx]
              in case executor env tr of
                   None \<Rightarrow> Aborted tr
                 | Some res \<Rightarrow>
                     (let status = res_status res;
                          action = res_action res
                      in case verify_step env intent expected tr of
                           (ok, tr) \<Rightarrow>
                             Completed
                               (tr @ [EvPersist
                                        \<lparr>sr_step_id = step_idx, sr_intent = intent,
                                           sr_expected_state = expected,
                                           sr_executor_status = status,
                                           sr_verified = ok,
                                           sr_executor_meta =
                                             Some \<lparr>em_action = action,
                                                    em_used_text = res_used_text res,
                                                    em_tag = res_tag res,
                                                    em_label = res_label res,
                                                    em_aria_label = res_aria_label res,
                                                    em_error = res_error res\<rparr>\<rparr>,
                                      EvSleep]))))"

fun run_steps :: "matcher \<Rightarrow> env \<Rightarrow> nat \<Rightarrow> plan_step list \<Rightarrow> event list \<Rightarrow> run_outcome" where
  "run_steps sm env step_idx [] tr = Completed tr"
| "run_steps sm env step_idx (step # rest) tr =
     (case run_step sm env step_idx step tr of
        Completed tr' \<Rightarrow> run_steps sm env (Suc step_idx) rest tr'
      | Aborted tr' \<Rightarrow> Aborted tr')"

definition run_plan :: "matcher \<Rightarrow> env \<Rightarrow> plan_step list \<Rightarrow> run_outcome" where
  "run_plan sm env plan = run_steps sm env 1 plan []"

section \<open>Notions the properties are stated with\<close>

text \<open>The number of attempts a piece of trace enters: each one starts by stabilizing.\<close>

definition attempts_entered :: "event list \<Rightarrow> nat" where
  "attempts_entered evs = length (filter (\<lambda>e. e = EvStabilize) evs)"

text \<open>The element of the first executor call in a piece of trace.\<close>

fun first_executed :: "event list \<Rightarrow> element option" where
  "first_executed [] = None"
| "first_executed (EvExecute el intent step_idx # evs) = Some el"
| "first_executed (ev # evs) = first_executed evs"

text \<open>
  The four label fields as the scorer reads them (trimmed), and the terms its score is
  the sum of. An element is labelled when one of its trimmed label fields is not empty:
  a field of blanks only counts as empty, as in \<open>_score_element\<close>.
\<close>

definition label_fields :: "element \<Rightarrow> string list" where
  "label_fields el =
     [strip (or_empty (el_text el)), strip (or_empty (el_aria_label el)),
      strip (or_empty (el_title el)), strip (or_empty (el_tooltip el))]"

definition labelled :: "element \<Rightarrow> bool" where
  "labelled el = (\<exists>f \<in> set (label_fields el). f \<noteq> [])"

definition core_score :: "matcher \<Rightarrow> string \<Rightarrow> string list \<Rightarrow> element \<Rightarrow> real" where
  "core_score sm intent_norm intent_tokens el =
     0.55 * fieldwise_fuzzy sm intent_norm (label_fields el)
     + 0.35 * token_overlap intent_tokens (tokens (join_fields (label_fields el)))"

definition activation_intent :: "string \<Rightarrow> bool" where
  "activation_intent intent_norm =
     any_in [''click'', ''open'', ''create'', ''delete'', ''submit''] intent_norm"

definition fill_intent :: "string \<Rightarrow> bool" where
  "fill_intent intent_norm = any_in [''fill'', ''input'', ''type''] intent_norm"

definition role_bonus :: "string \<Rightarrow> element \<Rightarrow> real" where
  "role_bonus intent_norm el =
     (if activation_intent intent_norm
      then (if lower (or_empty (el_role el)) \<in> set [''button'', ''menuitem'', ''link'']
            then 0.06 else 0)
           + (if lower (or_empty (el_tag el)) \<in> set [''button'', ''a''] then 0.03 else 0)
      else 0)
     + (if fill_intent intent_norm
           \<and> (lower (or_empty (el_role el)) \<in> set [''textbox'', ''combobox'']
                \<or> lower (or_empty (el_tag el)) \<in> set [''input'', ''textarea''])
        then 0.10 else 0)"

definition dialog_adjustment :: "bounds option \<Rightarrow> element \<Rightarrow> real" where
  "dialog_adjustment dialog_bounds el =
     (case dialog_bounds of
        None \<Rightarrow> 0
      | Some b \<Rightarrow> if inside b el then 0.08 else - 0.04)"

definition first_literal_matches :: "string list \<Rightarrow> element \<Rightarrow> bool" where
  "first_literal_matches quoted el =
     (case quoted of
        [] \<Rightarrow> False
      | q0 # _ \<Rightarrow> lower q0 \<noteq> [] \<and> (\<exists>f \<in> set (label_fields el). lower q0 = lower (strip f)))"

definition long_penalty :: "element \<Rightarrow> real" where
  "long_penalty el =
     (if length (strip (or_empty (el_text el))) > 120
         \<or> length (join_fields (label_fields el)) > 160
      then 0.05 else 0)"


text \<open>
  The body of the loop of \<open>_find_dialog_bounds\<close>, and what it keeps true of the pair
  \<open>(best, best_area)\<close>: the area is not negative, and it is 0 as long as no dialog was
  taken.
\<close>

definition dialog_step ::
  "element \<Rightarrow> bounds option \<times> real \<Rightarrow> bounds option \<times> real" where
  "dialog_step el acc =
     (case acc of (best, best_area) \<Rightarrow>
        if lower (or_empty (el_role el)) = ''dialog'' then
          (let x = or_zero (el_x el); y = or_zero (el_y el);
               w = or_zero (el_width el); h = or_zero (el_height el);
               area = max 0 w * max 0 h
           in if area > best_area \<and> w > 10 \<and> h > 10 then (Some (x, y, w, h), area)
              else (best, best_area))
        else (best, best_area))"


definition dialog_inv :: "bounds option \<times> real \<Rightarrow> bool" where
  "dialog_inv acc = (0 \<le> snd acc \<and> (fst acc = None \<longrightarrow> snd acc = 0))"


text \<open>
  The score of an element apart from its role and tag bonuses and from the literal
  bonus: the score, without literals, of the element with role and tag removed.
\<close>

definition without_role :: "element \<Rightarrow> element" where
  "without_role el = el\<lparr>el_tag := None, el_role := None\<rparr>"

definition plain_score :: "matcher \<Rightarrow> string \<Rightarrow> element list \<Rightarrow> element \<Rightarrow> real" where
  "plain_score sm intent perceived el =
     score_element sm (normalize_intent intent) (tokens (normalize_intent intent)) []
       (without_role el) (find_dialog_bounds perceived)"


section \<open>Example inputs\<close>

definition quote :: "string \<Rightarrow> string" where
  "quote s = CHR 0x27 # s @ [CHR 0x27]"

text \<open>
  The values of \<open>SequenceMatcher(None, a, b).ratio()\<close> at the pairs of strings the
  examples below compare: 1 for equal strings, \<open>2 * 2 / (10 + 2)\<close> for \<open>ok\<close> in
  \<open>click 'ok'\<close>, \<open>2 * 2 / (10 + 6)\<close> for \<open>cancel\<close> in \<open>click 'ok'\<close>, \<open>2 * 2 / (20 + 2)\<close> for \<open>ok\<close> in \<open>click 'save' or 'ok'\<close> and
  \<open>2 * 4 / (22 + 4)\<close> for \<open>name\<close> in \<open>click the 'name' input\<close>.
\<close>

definition sample_matcher :: matcher where
  "sample_matcher a b =
     (if a = b then 1
      else if a = ''click '' @ quote ''ok'' \<and> b = ''ok'' then 1 / 3
      else if a = ''click '' @ quote ''ok'' \<and> b = ''cancel'' then 1 / 4
      else if a = ''click 'save' or '' @ quote ''ok'' \<and> b = ''ok'' then 2 / 11
      else if a = ''click the 'name' input'' \<and> b = ''name'' then 4 / 13
      else 0)"

definition labelled_element ::
  "string \<Rightarrow> string option \<Rightarrow> string \<Rightarrow> real \<Rightarrow> real \<Rightarrow> real \<Rightarrow> real \<Rightarrow> element" where
  "labelled_element tag role txt x y w h =
     \<lparr>el_tag = Some tag, el_role = role, el_text = Some txt, el_aria_label = Some [],
        el_title = Some [], el_tooltip = Some [], el_x = Some x, el_y = Some y,
        el_width = Some w, el_height = Some h\<rparr>"

definition btn_ok :: element where
  "btn_ok = labelled_element ''button'' (Some ''button'') ''OK'' 10 10 80 30"

definition btn_ok_copy :: element where
  "btn_ok_copy = labelled_element ''button'' (Some ''button'') ''OK'' 200 10 80 30"

definition click_ok :: string where
  "click_ok = ''Click '' @ quote ''OK''"

definition fail_result :: exec_result where
  "fail_result = \<lparr>res_status = ''fail'', res_action = ''click'', res_label = Some ''OK'',
     res_aria_label = None, res_error = Some ''Timeout'', res_used_text = Some ''OK'',
     res_tag = Some ''button''\<rparr>"

definition success_result :: exec_result where
  "success_result = \<lparr>res_status = ''success'', res_action = ''click'', res_label = Some ''OK'',
     res_aria_label = None, res_error = None, res_used_text = Some ''OK'',
     res_tag = Some ''button''\<rparr>"

definition page_with :: "element list \<Rightarrow> (event list \<Rightarrow> exec_result option) \<Rightarrow> env" where
  "page_with els ex =
     \<lparr>perception_file = (\<lambda>tr. Some els), executor = ex, probe = (\<lambda>tr. False),
        dialog_text = (\<lambda>tr. None), page_url = (\<lambda>tr. None)\<rparr>"

definition always_fails :: "event list \<Rightarrow> exec_result option" where
  "always_fails tr = Some fail_result"

definition succeeds_on :: "element \<Rightarrow> event list \<Rightarrow> exec_result option" where
  "succeeds_on e tr =
     (case rev tr of
        EvExecute e' intent step_idx # _ \<Rightarrow> if e' = e then Some success_result else Some fail_result
      | _ \<Rightarrow> None)"

definition dialog_page :: "string \<Rightarrow> env" where
  "dialog_page txt =
     \<lparr>perception_file = (\<lambda>tr. None), executor = (\<lambda>tr. None), probe = (\<lambda>tr. True),
        dialog_text = (\<lambda>tr. Some txt), page_url = (\<lambda>tr. None)\<rparr>"

definition save_dialog_shown :: string where
  "save_dialog_shown = ''Dialog with 'Save' button is shown''"

definition blank_div :: element where
  "blank_div = labelled_element ''div'' None ''  '' 0 0 50 50"


definition save_or_ok :: string where
  "save_or_ok = ''Click 'Save' or '' @ quote ''OK''"


definition new_project_dialog :: element where
  "new_project_dialog = labelled_element ''div'' (Some ''dialog'') ''New project'' 100 100 400 300"

definition name_inside :: element where
  "name_inside = labelled_element ''div'' None ''Name'' 120 150 200 30"

definition name_outside :: element where
  "name_outside = labelled_element ''input'' (Some ''button'') ''Name'' 600 150 200 30"

definition ok_inside :: element where
  "ok_inside = labelled_element ''div'' None ''OK'' 120 350 80 30"

definition click_name_input :: string where
  "click_name_input = ''Click the 'Name' input''"

definition note_click_ok :: element where
  "note_click_ok = labelled_element ''div'' None click_ok 0 100 300 20"

definition btn_cancel :: element where
  "btn_cancel = labelled_element ''button'' (Some ''button'') ''Cancel'' 100 10 80 30"


definition click_ok_plan :: "plan_step list" where
  "click_ok_plan = [\<lparr>ps_intent = Some click_ok, ps_step = None, ps_expected_state = Some []\<rparr>]"

definition failed_step_record :: step_record where
  "failed_step_record =
     \<lparr>sr_step_id = 1, sr_intent = click_ok, sr_expected_state = [],
        sr_executor_status = ''fail'', sr_verified = False,
        sr_executor_meta =
          Some \<lparr>em_action = ''click'', em_used_text = Some ''OK'', em_tag = Some ''button'',
                 em_label = Some ''OK'', em_aria_label = None, em_error = Some ''Timeout''\<rparr>\<rparr>"

section \<open>Recovery: the shape of a run\<close>

lemma attempts_entered_append [simp]:
  "attempts_entered (xs @ ys) = attempts_entered xs + attempts_entered ys"
  by (simp add: attempts_entered_def)

lemma try_candidates_trace:
  "\<exists>evs. snd (try_candidates env intent step_idx els tr) = tr @ evs
         \<and> attempts_entered evs = 0
         \<and> (els \<noteq> [] \<longrightarrow> (\<exists>evs'. evs = EvExecute (hd els) intent step_idx # evs'))"
proof (induction els arbitrary: tr)
  case Nil
  then show ?case by (simp add: attempts_entered_def)
next
  case (Cons el els)
  obtain evs where evs:
    "snd (try_candidates env intent step_idx els (tr @ [EvExecute el intent step_idx]))
       = (tr @ [EvExecute el intent step_idx]) @ evs" "attempts_entered evs = 0"
    using Cons.IH [of "tr @ [EvExecute el intent step_idx]"] by blast
  show ?case
    using evs by (auto simp: Let_def attempts_entered_def split: option.splits)
qed

lemma try_candidates_success:
  "try_candidates env intent step_idx els tr = (Some res, tr') \<Longrightarrow> res_status res = ''success''"
  by (induction els arbitrary: tr) (auto simp: Let_def split: option.splits if_splits)

lemma enter_attempt_trace:
  "\<exists>pre. enter_attempt step_idx intent expected tr = tr @ pre \<and> attempts_entered pre = 1
         \<and> (\<forall>evs. first_executed (pre @ evs) = first_executed evs)"
  by (simp add: enter_attempt_def capture_perception_def close_easy_popups_def
      wait_if_dialog_expected_def gentle_stabilize_def attempts_entered_def)

lemma recover_step_run:
  "\<exists>r evs. recover_step sm env step_idx intent expected previous_element attempt max_attempts tr
            = (r, tr @ evs)
     \<and> attempts_entered evs \<le> nat (max_attempts + 1 - attempt)
     \<and> (if recovered r
         then attempt \<le> attempts r \<and> attempts r \<le> max_attempts
              \<and> (\<exists>res. result r = Some res \<and> res_status res = ''success'')
         else attempts r = max max_attempts (attempt - 1) \<and> result r = None
              \<and> attempts_entered evs = nat (max_attempts + 1 - attempt))"
proof (induction sm env step_idx intent expected previous_element attempt max_attempts tr
    rule: recover_step.induct)
  case (1 sm env step_idx intent expected previous_element attempt max_attempts tr)
  show ?case
  proof (cases "attempt > max_attempts")
    case True
    then show ?thesis
      by (subst recover_step.simps) (simp add: attempts_entered_def)
  next
    case False
    define tr1 where "tr1 = enter_attempt step_idx intent expected tr"
    define ordered where "ordered = order_candidates previous_element
       (recovery_candidates sm intent (perception_file env tr1))"
    obtain pre where pre: "tr1 = tr @ pre" "attempts_entered pre = 1"
      using enter_attempt_trace [of step_idx intent expected tr] unfolding tr1_def by blast
    obtain ro tr2 where t: "try_candidates env intent step_idx ordered tr1 = (ro, tr2)"
      by (cases "try_candidates env intent step_idx ordered tr1")
    obtain evs1 where evs1: "tr2 = tr1 @ evs1" "attempts_entered evs1 = 0"
      using try_candidates_trace [of env intent step_idx ordered tr1] t by auto
    show ?thesis
    proof (cases ro)
      case (Some res)
      have ok: "res_status res = ''success''"
        using t Some try_candidates_success by blast
      have "recover_step sm env step_idx intent expected previous_element attempt max_attempts tr
            = (\<lparr>recovered = True, attempts = attempt, result = Some res\<rparr>, tr2)"
        using False t Some
        by (subst recover_step.simps) (simp add: tr1_def ordered_def Let_def)
      then show ?thesis
        using False pre evs1 ok by simp
    next
      case None
      have eq: "recover_step sm env step_idx intent expected previous_element attempt max_attempts tr
            = recover_step sm env step_idx intent expected previous_element (attempt + 1)
                max_attempts (tr2 @ [EvEscape])"
        using False t None
        by (subst recover_step.simps) (simp add: tr1_def ordered_def Let_def)
      obtain r evs where ih:
        "recover_step sm env step_idx intent expected previous_element (attempt + 1)
                max_attempts (tr2 @ [EvEscape]) = (r, (tr2 @ [EvEscape]) @ evs)"
        "attempts_entered evs \<le> nat (max_attempts + 1 - (attempt + 1))"
        "if recovered r
         then attempt + 1 \<le> attempts r \<and> attempts r \<le> max_attempts
              \<and> (\<exists>res. result r = Some res \<and> res_status res = ''success'')
         else attempts r = max max_attempts (attempt + 1 - 1) \<and> result r = None
              \<and> attempts_entered evs = nat (max_attempts + 1 - (attempt + 1))"
      proof -
        have t': "(None, tr2) = try_candidates env intent step_idx
            (order_candidates previous_element (recovery_candidates sm intent
               (perception_file env (enter_attempt step_idx intent expected tr))))
            (enter_attempt step_idx intent expected tr)"
          using t None by (simp add: ordered_def tr1_def)
        from "1.IH" [OF False refl refl refl t' refl] show ?thesis
          using that by blast
      qed
      have "recover_step sm env step_idx intent expected previous_element attempt max_attempts tr
            = (r, tr @ (pre @ evs1 @ [EvEscape] @ evs))"
        using eq ih(1) pre evs1 by simp
      moreover have "attempts_entered (pre @ evs1 @ [EvEscape] @ evs) = 1 + attempts_entered evs"
        using pre evs1 by (simp add: attempts_entered_def)
      ultimately show ?thesis
        using ih(2,3) False by (auto split: if_splits)
    qed
  qed
qed

section \<open>Properties of the recovery state machine\<close>

text \<open>
  C2 (as amended). A call of \<open>recover_step\<close> with \<open>attempt > max_attempts\<close> returns at
  once: the trace is unchanged (no stabilizing, no perception, no action), \<open>recovered\<close>
  is false, no executor result is attached, and \<open>attempts\<close> is \<open>attempt - 1\<close>. That
  number is \<open>max_attempts\<close> exactly when \<open>attempt = max_attempts + 1\<close>.
\<close>

theorem recover_step_exhausted:
  assumes "max_attempts < attempt"
  shows "recover_step sm env step_idx intent expected previous_element attempt max_attempts tr
           = (\<lparr>recovered = False, attempts = attempt - 1, result = None\<rparr>, tr)
         \<and> ((attempts (fst (recover_step sm env step_idx intent expected previous_element attempt
                 max_attempts tr)) = max_attempts) = (attempt = max_attempts + 1))"
  using assms by (auto simp: recover_step.simps)

theorem recover_step_exhausted_witness:
  "(2::int) < 3
   \<and> recover_step sample_matcher (page_with [btn_ok] always_fails) 1 click_ok [] (Some btn_ok) 3 2 []
       = (\<lparr>recovered = False, attempts = 2, result = None\<rparr>, [])"
proof -
  have h: "(2::int) < 3" by simp
  from recover_step_exhausted [OF h, of sample_matcher "page_with [btn_ok] always_fails" 1
      click_ok "[]" "Some btn_ok" "[]"]
  show ?thesis by simp
qed

text \<open>
  The claim as it was stated fails: called with attempt 5 and a ceiling of 2, the
  function reports 4 attempts, not 2.
\<close>

theorem recover_step_exhausted_counterexample:
  "attempts (fst (recover_step sample_matcher (page_with [btn_ok] always_fails) 1 click_ok []
      (Some btn_ok) 5 2 [])) = 4
   \<and> attempts (fst (recover_step sample_matcher (page_with [btn_ok] always_fails) 1 click_ok []
      (Some btn_ok) 5 2 [])) \<noteq> 2"
  by (simp add: recover_step.simps)

text \<open>
  C3. \<open>recover_step\<close> is a total function: its recursion is on \<open>attempt + 1\<close> under
  the guard \<open>attempt \<le> max_attempts\<close>, so \<open>max_attempts + 1 - attempt\<close> decreases (the
  termination proof above). For every input it returns a record and a trace that
  extends the given one; it enters at most \<open>max_attempts + 1 - attempt\<close> attempts (none
  when that number is negative). A recovered result carries the successful executor
  result and an attempt number from \<open>attempt\<close> to \<open>max_attempts\<close>; a result that is not
  recovered carries none, and every attempt up to the ceiling was made.
\<close>

theorem recover_step_terminates:
  "\<exists>r evs. recover_step sm env step_idx intent expected previous_element attempt max_attempts tr
            = (r, tr @ evs)
     \<and> attempts_entered evs \<le> nat (max_attempts + 1 - attempt)
     \<and> (if recovered r
         then attempt \<le> attempts r \<and> attempts r \<le> max_attempts
              \<and> (\<exists>res. result r = Some res \<and> res_status res = ''success'')
         else attempts r = max max_attempts (attempt - 1) \<and> result r = None
              \<and> attempts_entered evs = nat (max_attempts + 1 - attempt))"
  by (rule recover_step_run)

lemma fails_twice:
  "recover_step sample_matcher (page_with [btn_ok, btn_ok_copy] always_fails) 1 click_ok []
      (Some btn_ok) 1 2 []
   = (\<lparr>recovered = False, attempts = 2, result = None\<rparr>,
      [EvStabilize, EvClosePopups, EvPerceive 1, EvExecute btn_ok_copy click_ok 1, EvEscape,
       EvStabilize, EvClosePopups, EvPerceive 1, EvExecute btn_ok_copy click_ok 1, EvEscape])"
  by code_simp

theorem recover_step_terminates_witness:
  "\<exists>r evs. recover_step sample_matcher (page_with [btn_ok, btn_ok_copy] always_fails) 1 click_ok []
      (Some btn_ok) 1 2 [] = (r, evs)
     \<and> attempts_entered evs = 2 \<and> \<not> recovered r \<and> attempts r = 2 \<and> result r = None"
proof -
  obtain r evs where run:
    "recover_step sample_matcher (page_with [btn_ok, btn_ok_copy] always_fails) 1 click_ok []
       (Some btn_ok) 1 2 [] = (r, [] @ evs)"
    "if recovered r
     then 1 \<le> attempts r \<and> attempts r \<le> 2
          \<and> (\<exists>res. result r = Some res \<and> res_status res = ''success'')
     else attempts r = max 2 (1 - 1) \<and> result r = None
          \<and> attempts_entered evs = nat (2 + 1 - 1)"
    using recover_step_terminates [of sample_matcher
        "page_with [btn_ok, btn_ok_copy] always_fails" 1 click_ok "[]" "Some btn_ok" 1 2 "[]"]
    by blast
  from run(1) have "\<not> recovered r"
    unfolding fails_twice by auto
  with run show ?thesis
    by auto
qed


section \<open>The order of the candidates in an attempt\<close>

lemma order_candidates_first:
  assumes "candidates \<noteq> []"
  shows "order_candidates (Some p) candidates \<noteq> []
       \<and> hd (order_candidates (Some p) candidates) \<in> set candidates
       \<and> ((\<exists>c \<in> set candidates. bbox c \<noteq> bbox p)
            \<longrightarrow> bbox (hd (order_candidates (Some p) candidates)) \<noteq> bbox p)"
proof -
  let ?keep = "filter (\<lambda>el. \<not> is_same (Some p) (Some el)) candidates"
  show ?thesis
  proof (cases "?keep = []")
    case True
    then have "\<forall>c \<in> set candidates. bbox c = bbox p"
      by (auto simp: filter_empty_conv is_same_def)
    with True assms show ?thesis
      by (simp add: order_candidates_def)
  next
    case False
    then have "hd ?keep \<in> set ?keep"
      by (rule hd_in_set)
    then have "hd ?keep \<in> set candidates" "bbox (hd ?keep) \<noteq> bbox p"
      by (auto simp: is_same_def)
    with False show ?thesis
      by (simp add: order_candidates_def)
  qed
qed

lemma recover_step_first_action:
  assumes "attempt \<le> max_attempts"
    and "order_candidates previous_element
           (recovery_candidates sm intent
              (perception_file env (enter_attempt step_idx intent expected tr))) = e # es"
  shows "first_executed (drop (length tr) (snd (recover_step sm env step_idx intent expected
           previous_element attempt max_attempts tr))) = Some e"
proof -
  define tr1 where "tr1 = enter_attempt step_idx intent expected tr"
  obtain pre where pre: "tr1 = tr @ pre" "\<forall>evs. first_executed (pre @ evs) = first_executed evs"
    using enter_attempt_trace [of step_idx intent expected tr] unfolding tr1_def by blast
  obtain ro tr2 where t: "try_candidates env intent step_idx (e # es) tr1 = (ro, tr2)"
    by (cases "try_candidates env intent step_idx (e # es) tr1")
  obtain evs1 where evs1: "tr2 = tr1 @ EvExecute e intent step_idx # evs1"
    using try_candidates_trace [of env intent step_idx "e # es" tr1] t by auto
  have "\<exists>evs. snd (recover_step sm env step_idx intent expected previous_element attempt
            max_attempts tr) = tr2 @ evs"
  proof (cases ro)
    case (Some res)
    then show ?thesis
      using assms t by (subst recover_step.simps) (simp add: tr1_def Let_def)
  next
    case None
    obtain r evs where "recover_step sm env step_idx intent expected previous_element
        (attempt + 1) max_attempts (tr2 @ [EvEscape]) = (r, (tr2 @ [EvEscape]) @ evs)"
      using recover_step_run [of sm env step_idx intent expected previous_element "attempt + 1"
          max_attempts "tr2 @ [EvEscape]"] by blast
    then show ?thesis
      using assms t None by (subst recover_step.simps) (simp add: tr1_def Let_def)
  qed
  then obtain evs where "snd (recover_step sm env step_idx intent expected previous_element
      attempt max_attempts tr) = tr @ pre @ EvExecute e intent step_idx # evs1 @ evs"
    using pre evs1 by auto
  then show ?thesis
    using pre(2) by simp
qed


text \<open>
  C4. In a recovery attempt (\<open>attempt \<le> max_attempts\<close>) with a previous element \<open>p\<close>
  and at least one candidate, the first executor call of the attempt is on a candidate;
  its bounding box differs from that of \<open>p\<close> whenever some candidate's does, and it has
  the box of \<open>p\<close> only if every candidate has. The candidates are the list the attempt
  computes: the top 5 of the fresh snapshot.
\<close>

theorem recovery_avoids_previous_box:
  assumes "attempt \<le> max_attempts"
    and "recovery_candidates sm intent
           (perception_file env (enter_attempt step_idx intent expected tr)) = candidates"
    and "candidates \<noteq> []"
  shows "\<exists>e. first_executed (drop (length tr) (snd (recover_step sm env step_idx intent expected
                 (Some p) attempt max_attempts tr))) = Some e
           \<and> e \<in> set candidates
           \<and> ((\<exists>c \<in> set candidates. bbox c \<noteq> bbox p) \<longrightarrow> bbox e \<noteq> bbox p)
           \<and> (bbox e = bbox p \<longrightarrow> (\<forall>c \<in> set candidates. bbox c = bbox p))"
proof -
  let ?ordered = "order_candidates (Some p) candidates"
  have first: "?ordered \<noteq> []" "hd ?ordered \<in> set candidates"
    "(\<exists>c \<in> set candidates. bbox c \<noteq> bbox p) \<longrightarrow> bbox (hd ?ordered) \<noteq> bbox p"
    using order_candidates_first [OF assms(3), of p] by auto
  then obtain e es where ord: "?ordered = e # es"
    by (cases ?ordered) auto
  have "first_executed (drop (length tr) (snd (recover_step sm env step_idx intent expected
          (Some p) attempt max_attempts tr))) = Some e"
    using recover_step_first_action [OF assms(1), of "Some p" sm intent env step_idx expected tr e es]
      ord assms(2) by simp
  with first ord show ?thesis
    by auto
qed

lemma sample_candidates:
  "recovery_candidates sample_matcher click_ok
     (perception_file (page_with [btn_ok, btn_ok_copy] (succeeds_on btn_ok_copy))
        (enter_attempt 1 click_ok [] [])) = [btn_ok, btn_ok_copy]"
  by code_simp

lemma sample_boxes: "bbox btn_ok_copy \<noteq> bbox btn_ok"
  by code_simp

theorem recovery_avoids_previous_box_witness:
  "(1::int) \<le> 2
   \<and> recovery_candidates sample_matcher click_ok
       (perception_file (page_with [btn_ok, btn_ok_copy] (succeeds_on btn_ok_copy))
          (enter_attempt 1 click_ok [] [])) = [btn_ok, btn_ok_copy]
   \<and> first_executed (drop (length ([]::event list))
        (snd (recover_step sample_matcher (page_with [btn_ok, btn_ok_copy] (succeeds_on btn_ok_copy))
           1 click_ok [] (Some btn_ok) 1 2 []))) = Some btn_ok_copy"
proof -
  have h: "(1::int) \<le> 2" by simp
  have ne: "[btn_ok, btn_ok_copy] \<noteq> []" by simp
  from recovery_avoids_previous_box [OF h sample_candidates ne, where p = btn_ok]
  obtain e where e: "first_executed (drop (length ([]::event list))
        (snd (recover_step sample_matcher (page_with [btn_ok, btn_ok_copy] (succeeds_on btn_ok_copy))
           1 click_ok [] (Some btn_ok) 1 2 []))) = Some e"
     "e \<in> set [btn_ok, btn_ok_copy]"
     "(\<exists>c \<in> set [btn_ok, btn_ok_copy]. bbox c \<noteq> bbox btn_ok) \<longrightarrow> bbox e \<noteq> bbox btn_ok"
    by blast
  from e(3) sample_boxes have "bbox e \<noteq> bbox btn_ok" by simp
  with e(2) have "e = btn_ok_copy" by auto
  with e(1) h sample_candidates show ?thesis by simp
qed

section \<open>Properties of the verification router\<close>

lemma verify_dialog_open_trace:
  "\<exists>evs. snd (verify_dialog_open env must_contain tr) = tr @ evs
         \<and> set evs \<subseteq> {EvWaitForDialog 3000, EvDialogText}"
  by (auto simp: verify_dialog_open_def Let_def split: option.splits)


text \<open>
  C9. When the lower-case expected outcome contains \<open>dialog\<close>, \<open>modal\<close> or \<open>prompt\<close>,
  whatever else it contains (a button, link, menuitem or tab keyword included), the
  verdict of \<open>verify_step\<close> is that of \<open>verify_dialog_open\<close> on the first quoted literal
  (of the outcome, else of the intent), and the existence check by role and name of
  rule 4 is not among the probes the router makes.
\<close>

theorem verify_step_dialog_first:
  assumes "any_in [''dialog'', ''modal'', ''prompt''] (lower (strip expected_state))"
  shows "verify_step env intent expected_state tr
           = verify_dialog_open env
               (case (if extract_all_quoted (strip expected_state) \<noteq> []
                      then extract_all_quoted (strip expected_state)
                      else extract_all_quoted intent) of
                  [] \<Rightarrow> None
                | q # _ \<Rightarrow> Some q) tr
         \<and> (\<forall>role name. EvElementExists role name
               \<notin> set (drop (length tr) (snd (verify_step env intent expected_state tr))))"
proof -
  let ?mc = "case (if extract_all_quoted (strip expected_state) \<noteq> []
                      then extract_all_quoted (strip expected_state)
                      else extract_all_quoted intent) of
                  [] \<Rightarrow> None
                | q # _ \<Rightarrow> Some q"
  have eq: "verify_step env intent expected_state tr = verify_dialog_open env ?mc tr"
    using assms by (simp add: verify_step_def Let_def)
  obtain evs where evs: "snd (verify_dialog_open env ?mc tr) = tr @ evs"
    "set evs \<subseteq> {EvWaitForDialog 3000, EvDialogText}"
    using verify_dialog_open_trace by blast
  have "\<forall>role name. EvElementExists role name \<notin> set evs"
    using evs(2) by auto
  with eq evs(1) show ?thesis
    by simp
qed

lemma sample_keywords:
  "any_in [''dialog'', ''modal'', ''prompt''] (lower (strip save_dialog_shown))"
  "any_in [''button'', ''link'', ''menuitem'', ''tab''] (lower (strip save_dialog_shown))"
  by code_simp+

lemma sample_dialog_check:
  "verify_dialog_open (dialog_page ''Save changes?'')
     (case (if extract_all_quoted (strip save_dialog_shown) \<noteq> []
            then extract_all_quoted (strip save_dialog_shown)
            else extract_all_quoted click_ok) of
        [] \<Rightarrow> None
      | q # _ \<Rightarrow> Some q) []
   = (True, [EvWaitForDialog 3000, EvDialogText])"
  by code_simp

theorem verify_step_dialog_first_witness:
  "any_in [''dialog'', ''modal'', ''prompt''] (lower (strip save_dialog_shown))
   \<and> any_in [''button'', ''link'', ''menuitem'', ''tab''] (lower (strip save_dialog_shown))
   \<and> verify_step (dialog_page ''Save changes?'') click_ok save_dialog_shown []
       = (True, [EvWaitForDialog 3000, EvDialogText])"
  using verify_step_dialog_first [OF sample_keywords(1), of "dialog_page ''Save changes?''" click_ok "[]"]
    sample_keywords sample_dialog_check
  by simp


section \<open>Properties of the locator's two accessors\<close>

text \<open>
  C10. For every intent, every perception file (readable or not) and every \<open>k\<close>:
  \<open>locate_top_candidates\<close> returns the empty list exactly when
  \<open>locate_element_for_intent\<close> returns \<open>None\<close>, and otherwise its first element is the
  element that \<open>locate_element_for_intent\<close> returns.
\<close>

theorem accessors_agree:
  "(case locate_top_candidates sm intent perception k of
      [] \<Rightarrow> locate_element_for_intent sm intent perception = None
    | e # _ \<Rightarrow> locate_element_for_intent sm intent perception = Some e)"
proof (cases perception)
  case None
  then show ?thesis
    by (simp add: locate_top_candidates_def locate_element_for_intent_def)
next
  case (Some perceived)
  let ?sorted = "sort_key (\<lambda>p. - fst p) (score_all sm intent perceived)"
  show ?thesis
  proof (cases ?sorted)
    case Nil
    with Some show ?thesis
      by (simp add: locate_top_candidates_def locate_element_for_intent_def)
  next
    case (Cons best rest)
    have "0 < nat (max 1 k)" by simp
    then obtain n where n: "nat (max 1 k) = Suc n"
      using gr0_conv_Suc by blast
    show ?thesis
      using Some Cons n
      by (simp add: locate_top_candidates_def locate_element_for_intent_def split: prod.splits)
  qed
qed

lemma sample_scores:
  "score_all sample_matcher click_ok [btn_ok, btn_ok_copy] = [(449 / 600, btn_ok), (449 / 600, btn_ok_copy)]"
  by code_simp

theorem accessors_agree_witness:
  "locate_top_candidates sample_matcher click_ok (Some [btn_ok, btn_ok_copy]) 0 = [btn_ok]
   \<and> locate_element_for_intent sample_matcher click_ok (Some [btn_ok, btn_ok_copy]) = Some btn_ok"
proof -
  have top: "locate_top_candidates sample_matcher click_ok (Some [btn_ok, btn_ok_copy]) 0 = [btn_ok]"
    by (simp add: locate_top_candidates_def sample_scores)
  from accessors_agree [of sample_matcher click_ok "Some [btn_ok, btn_ok_copy]" 0] top
  show ?thesis by simp
qed

section \<open>Scoring: the terms of a score\<close>

lemma score_element_unlabelled:
  "\<not> labelled el \<Longrightarrow> score_element sm n t q el db = - 1"
  by (simp add: score_element_def labelled_def label_fields_def)

lemma score_element_split:
  assumes "labelled el"
  shows "score_element sm n t q el db
         = core_score sm n t el + role_bonus n el + dialog_adjustment db el
           + (if first_literal_matches q el then 0.30 else 0) - long_penalty el"
proof -
  have lab: "\<not> (strip (or_empty (el_text el)) = [] \<and> strip (or_empty (el_aria_label el)) = []
      \<and> strip (or_empty (el_title el)) = [] \<and> strip (or_empty (el_tooltip el)) = [])"
    using assms by (auto simp: labelled_def label_fields_def)
  have act: "(\<exists>k \<in> set [''click'', ''open'', ''create'', ''delete'', ''submit'']. contains k n)
      = activation_intent n"
    by (simp add: activation_intent_def any_in_def)
  have fill: "(contains ''fill'' n \<or> contains ''input'' n \<or> contains ''type'' n) = fill_intent n"
    by (simp add: fill_intent_def any_in_def)
  have dlg: "(case db of Some b \<Rightarrow> (if inside b el then s + 0.08 else s - 0.04) | None \<Rightarrow> s)
      = s + dialog_adjustment db el" for s :: real
    by (cases db) (simp_all add: dialog_adjustment_def)
  have lit: "(case q of
                q0 # _ \<Rightarrow>
                  (if lower q0 \<noteq> [] \<and> (\<exists>f \<in> set (label_fields el). lower q0 = lower (strip f))
                   then s + 0.30 else s)
              | [] \<Rightarrow> s)
      = s + (if first_literal_matches q el then 0.30 else 0)" for s :: real
    by (cases q) (simp_all add: first_literal_matches_def Let_def)
  have long: "(if length (strip (or_empty (el_text el))) > 120
                  \<or> length (join_fields (label_fields el)) > 160
               then s - 0.05 else s) = s - long_penalty el" for s :: real
    by (simp add: long_penalty_def)
  have "score_element sm n t q el db
        = (let score = core_score sm n t el;
               score = (if activation_intent n
                   then
                     (let score = (if lower (or_empty (el_role el))
                                       \<in> set [''button'', ''menuitem'', ''link'']
                                   then score + 0.06 else score)
                      in if lower (or_empty (el_tag el)) \<in> set [''button'', ''a'']
                         then score + 0.03 else score)
                   else score);
               score = (if fill_intent n
                   then
                     (if lower (or_empty (el_role el)) \<in> set [''textbox'', ''combobox'']
                         \<or> lower (or_empty (el_tag el)) \<in> set [''input'', ''textarea'']
                      then score + 0.10 else score)
                   else score);
               score = (case db of
                     Some b \<Rightarrow> (if inside b el then score + 0.08 else score - 0.04)
                   | None \<Rightarrow> score);
               score = (case q of
                     q0 # _ \<Rightarrow>
                       (let q' = lower q0
                        in if q' \<noteq> [] \<and> (\<exists>f \<in> set (label_fields el). q' = lower (strip f))
                           then score + 0.30 else score)
                   | [] \<Rightarrow> score)
           in if length (strip (or_empty (el_text el))) > 120
                  \<or> length (join_fields (label_fields el)) > 160
              then score - 0.05 else score)"
    unfolding score_element_def act fill
    using lab
    by (simp only: Let_def label_fields_def core_score_def if_False)
  also have "\<dots> = core_score sm n t el + role_bonus n el + dialog_adjustment db el
           + (if first_literal_matches q el then 0.30 else 0) - long_penalty el"
    unfolding Let_def dlg lit long
    by (simp add: role_bonus_def del: set_simps)
  finally show ?thesis .
qed


lemma fuzzy_step_bounds:
  "0 \<le> b \<Longrightarrow>
   0 \<le> fold (\<lambda>f best. if f = [] then best
             else (let r = ratio sm n (lower f) in if r > best then r else best)) fs b"
  "matcher_bounded sm \<Longrightarrow> b \<le> 1 \<Longrightarrow>
   fold (\<lambda>f best. if f = [] then best
           else (let r = ratio sm n (lower f) in if r > best then r else best)) fs b \<le> 1"
proof (induction fs arbitrary: b)
  case Nil
  { case 1 then show ?case by simp }
  { case 2 then show ?case by simp }
next
  case (Cons f fs)
  { case 1
    then show ?case
      using Cons.IH(1) by (simp add: Let_def) }
  { case 2
    have "ratio sm n (lower f) \<le> 1"
      using 2(1) by (simp add: ratio_def matcher_bounded_def)
    then show ?case
      using 2 Cons.IH(2) by (simp add: Let_def) }
qed

lemma fieldwise_fuzzy_bounds:
  "0 \<le> fieldwise_fuzzy sm n fs"
  "matcher_bounded sm \<Longrightarrow> fieldwise_fuzzy sm n fs \<le> 1"
  unfolding fieldwise_fuzzy_def
  using fuzzy_step_bounds(1) [where b = 0] fuzzy_step_bounds(2) [where b = 0] by simp_all

lemma token_overlap_bounds:
  "0 \<le> token_overlap a b" "token_overlap a b \<le> 1"
proof -
  have "card (set a \<inter> set b) \<le> card (set a)"
    by (simp add: card_mono)
  then have "real (card (set a \<inter> set b)) \<le> real (max 1 (card (set a)))"
    by simp
  then show "token_overlap a b \<le> 1"
    by (simp add: token_overlap_def divide_le_eq_1 less_max_iff_disj)
  show "0 \<le> token_overlap a b"
    by (simp add: token_overlap_def)
qed

lemma core_score_bounds:
  "0 \<le> core_score sm n t el"
  "matcher_bounded sm \<Longrightarrow> core_score sm n t el \<le> 0.90"
proof -
  let ?f = "fieldwise_fuzzy sm n (label_fields el)"
  let ?o = "token_overlap t (tokens (join_fields (label_fields el)))"
  have "0 \<le> ?f" "0 \<le> ?o" "?o \<le> 1"
    using fieldwise_fuzzy_bounds(1) token_overlap_bounds by auto
  then show "0 \<le> core_score sm n t el"
    by (simp add: core_score_def)
  assume "matcher_bounded sm"
  then have "?f \<le> 1"
    by (rule fieldwise_fuzzy_bounds(2))
  with \<open>?o \<le> 1\<close> show "core_score sm n t el \<le> 0.90"
    by (simp add: core_score_def)
qed

lemma role_bonus_bounds: "0 \<le> role_bonus n el" "role_bonus n el \<le> 0.19"
  by (simp_all add: role_bonus_def del: set_simps)

lemma dialog_adjustment_bounds:
  "- 0.04 \<le> dialog_adjustment db el" "dialog_adjustment db el \<le> 0.08"
  by (cases db; simp add: dialog_adjustment_def)+

lemma long_penalty_bounds: "0 \<le> long_penalty el" "long_penalty el \<le> 0.05"
  by (simp_all add: long_penalty_def)

lemma score_element_bounds:
  assumes "labelled el"
  shows "- 0.09 \<le> score_element sm n t q el db"
    and "matcher_bounded sm \<Longrightarrow> score_element sm n t q el db \<le> 1.47"
proof -
  note b = core_score_bounds(1) [of sm n t el] role_bonus_bounds [of n el]
    dialog_adjustment_bounds [of db el] long_penalty_bounds [of el]
  show "- 0.09 \<le> score_element sm n t q el db"
    using b by (simp add: score_element_split [OF assms])
  assume "matcher_bounded sm"
  then have "core_score sm n t el \<le> 0.90"
    by (rule core_score_bounds(2))
  then show "score_element sm n t q el db \<le> 1.47"
    using b by (simp add: score_element_split [OF assms])
qed

lemma score_all_member:
  "(s, e) \<in> set (score_all sm intent perceived) \<Longrightarrow> e \<in> set perceived \<and> labelled e"
proof -
  assume "(s, e) \<in> set (score_all sm intent perceived)"
  then have "e \<in> set perceived"
    and "score_element sm (normalize_intent intent) (tokens (normalize_intent intent))
           (extract_quoted intent) e (find_dialog_bounds perceived) > - 1"
    by (auto simp: score_all_def Let_def)
  then show ?thesis
    using score_element_unlabelled [of e] by fastforce
qed

lemma located_in_score_all:
  "locate_element_for_intent sm intent (Some perceived) = Some e
   \<Longrightarrow> \<exists>s. (s, e) \<in> set (score_all sm intent perceived)"
proof -
  assume l: "locate_element_for_intent sm intent (Some perceived) = Some e"
  let ?sorted = "sort_key (\<lambda>p. - fst p) (score_all sm intent perceived)"
  from l obtain s rest where "?sorted = (s, e) # rest"
    by (auto simp: locate_element_for_intent_def split: list.splits)
  then have "(s, e) \<in> set ?sorted"
    by simp
  then show ?thesis
    by auto
qed

lemma top_in_score_all:
  "e \<in> set (locate_top_candidates sm intent (Some perceived) k)
   \<Longrightarrow> \<exists>s. (s, e) \<in> set (score_all sm intent perceived)"
proof -
  assume "e \<in> set (locate_top_candidates sm intent (Some perceived) k)"
  then obtain s where "(s, e) \<in> set (take (nat (max 1 k))
      (sort_key (\<lambda>p. - fst p) (score_all sm intent perceived)))"
    by (auto simp: locate_top_candidates_def)
  then have "(s, e) \<in> set (sort_key (\<lambda>p. - fst p) (score_all sm intent perceived))"
    by (rule in_set_takeD)
  then show ?thesis
    by auto
qed

lemma nothing_labelled:
  assumes "\<forall>e \<in> set perceived. \<not> labelled e"
  shows "score_all sm intent perceived = []"
proof -
  have "p \<notin> set (score_all sm intent perceived)" for p
    using assms score_all_member [of "fst p" "snd p" sm intent perceived] by auto
  then show ?thesis
    by (cases "score_all sm intent perceived") auto
qed

lemma unlabelled_no_match:
  assumes "\<not> labelled el"
  shows "\<not> first_literal_matches q el"
proof (cases q)
  case Nil
  then show ?thesis
    by (simp add: first_literal_matches_def)
next
  case (Cons q0 qs)
  have empty: "\<forall>f \<in> set (label_fields el). f = []"
    using assms by (simp add: labelled_def)
  have "lower (strip []) = []"
    by (simp add: lower_def strip_def)
  with empty have "lower (strip f) = []" if "f \<in> set (label_fields el)" for f
    using that by fastforce
  with Cons show ?thesis
    by (auto simp: first_literal_matches_def)
qed


section \<open>The dialog bounds of a snapshot\<close>

lemma find_dialog_bounds_fold:
  "find_dialog_bounds perceived = fst (fold dialog_step perceived (None, 0))"
proof -
  have "(\<lambda>el (best, best_area).
                  if lower (or_empty (el_role el)) = ''dialog'' then
                    (let x = or_zero (el_x el); y = or_zero (el_y el);
                         w = or_zero (el_width el); h = or_zero (el_height el);
                         area = max 0 w * max 0 h
                     in if area > best_area \<and> w > 10 \<and> h > 10 then (Some (x, y, w, h), area)
                        else (best, best_area))
                  else (best, best_area)) = dialog_step"
    by (auto simp: dialog_step_def fun_eq_iff)
  then show ?thesis
    by (simp add: find_dialog_bounds_def)
qed


lemma dialog_step_inv: "dialog_inv acc \<Longrightarrow> dialog_inv (dialog_step el acc)"
  by (cases acc) (auto simp: dialog_inv_def dialog_step_def Let_def)

lemma dialog_step_keeps: "fst acc \<noteq> None \<Longrightarrow> fst (dialog_step el acc) \<noteq> None"
  by (cases acc) (auto simp: dialog_step_def Let_def)

lemma dialog_step_finds:
  assumes "dialog_inv acc" "lower (or_empty (el_role d)) = ''dialog''"
    "or_zero (el_width d) > 10" "or_zero (el_height d) > 10"
  shows "fst (dialog_step d acc) \<noteq> None"
proof (cases acc)
  case (Pair best best_area)
  have "0 < max 0 (or_zero (el_width d)) * max 0 (or_zero (el_height d))"
    using assms(3,4) by simp
  then show ?thesis
    using assms Pair by (auto simp: dialog_step_def dialog_inv_def Let_def)
qed

lemma fold_dialog_keeps:
  "fst acc \<noteq> None \<Longrightarrow> fst (fold dialog_step els acc) \<noteq> None"
proof (induction els arbitrary: acc)
  case Nil
  then show ?case by simp
next
  case (Cons e els)
  from Cons.prems have "fst (dialog_step e acc) \<noteq> None"
    by (rule dialog_step_keeps)
  then have "fst (fold dialog_step els (dialog_step e acc)) \<noteq> None"
    by (rule Cons.IH)
  then show ?case by simp
qed

lemma fold_dialog_finds:
  assumes "d \<in> set els" "lower (or_empty (el_role d)) = ''dialog''"
    "or_zero (el_width d) > 10" "or_zero (el_height d) > 10" "dialog_inv acc"
  shows "fst (fold dialog_step els acc) \<noteq> None"
  using assms(1,5)
proof (induction els arbitrary: acc)
  case Nil
  then show ?case by simp
next
  case (Cons e els)
  show ?case
  proof (cases "e = d")
    case True
    have "fst (dialog_step d acc) \<noteq> None"
      using dialog_step_finds [OF Cons.prems(2) assms(2,3,4)] .
    with True show ?thesis
      by (simp add: fold_dialog_keeps)
  next
    case False
    with Cons.prems have "d \<in> set els" by simp
    then show ?thesis
      using Cons.IH [of "dialog_step e acc"] dialog_step_inv [OF Cons.prems(2)] by simp
  qed
qed

lemma find_dialog_bounds_some:
  assumes "d \<in> set perceived" "lower (or_empty (el_role d)) = ''dialog''"
    "or_zero (el_width d) > 10" "or_zero (el_height d) > 10"
  shows "\<exists>b. find_dialog_bounds perceived = Some b"
proof -
  have "dialog_inv (None, 0)"
    by (simp add: dialog_inv_def)
  then have "fst (fold dialog_step perceived (None, 0)) \<noteq> None"
    using fold_dialog_finds [OF assms] by blast
  then show ?thesis
    by (auto simp: find_dialog_bounds_fold)
qed

lemma role_bonus_one_kind:
  "\<not> (activation_intent n \<and> fill_intent n) \<Longrightarrow> role_bonus n el \<le> 0.10"
  by (simp add: role_bonus_def del: set_simps)

lemma role_bonus_same:
  "lower (or_empty (el_role a)) = lower (or_empty (el_role b))
   \<Longrightarrow> lower (or_empty (el_tag a)) = lower (or_empty (el_tag b))
   \<Longrightarrow> role_bonus n a = role_bonus n b"
  by (simp add: role_bonus_def del: set_simps)


section \<open>Properties of the scorer\<close>

text \<open>
  C8. An element whose text, aria-label, title and tooltip are all empty (blank fields
  included) gets the sentinel \<open>-1\<close>. With a matcher whose ratios lie between 0 and 1,
  every labelled element scores between \<open>-0.09\<close> (the two penalties) and \<open>1.47\<close> (the
  sum of all bonuses), so above the sentinel. An element returned as best or among the
  top-K is labelled, and when the snapshot is unreadable, empty or without a labelled
  element, the best candidate is \<open>None\<close> and the top-K list is empty.
\<close>

theorem unlabelled_elements_excluded:
  assumes "matcher_bounded sm"
  shows "(or_empty (el_text el) = [] \<and> or_empty (el_aria_label el) = []
           \<and> or_empty (el_title el) = [] \<and> or_empty (el_tooltip el) = [] \<longrightarrow> \<not> labelled el)
       \<and> (\<not> labelled el \<longrightarrow> score_element sm n t q el db = - 1)
       \<and> (labelled el \<longrightarrow> - 0.09 \<le> score_element sm n t q el db
             \<and> score_element sm n t q el db \<le> 1.47)
       \<and> (\<forall>e. locate_element_for_intent sm intent perception = Some e \<longrightarrow> labelled e)
       \<and> (\<forall>e \<in> set (locate_top_candidates sm intent perception k). labelled e)
       \<and> ((\<forall>perceived. perception = Some perceived \<longrightarrow> (\<forall>e \<in> set perceived. \<not> labelled e))
            \<longrightarrow> locate_element_for_intent sm intent perception = None
                \<and> locate_top_candidates sm intent perception k = [])"
proof (intro conjI)
  show "or_empty (el_text el) = [] \<and> or_empty (el_aria_label el) = []
           \<and> or_empty (el_title el) = [] \<and> or_empty (el_tooltip el) = [] \<longrightarrow> \<not> labelled el"
    by (simp add: labelled_def label_fields_def strip_def)
  show "\<not> labelled el \<longrightarrow> score_element sm n t q el db = - 1"
    by (simp add: score_element_unlabelled)
  show "labelled el \<longrightarrow> - 0.09 \<le> score_element sm n t q el db
             \<and> score_element sm n t q el db \<le> 1.47"
    using score_element_bounds [of el sm n t q db] assms by simp
  show "\<forall>e. locate_element_for_intent sm intent perception = Some e \<longrightarrow> labelled e"
  proof (cases perception)
    case None
    then show ?thesis by (simp add: locate_element_for_intent_def)
  next
    case (Some perceived)
    then show ?thesis
      using located_in_score_all score_all_member by blast
  qed
  show "\<forall>e \<in> set (locate_top_candidates sm intent perception k). labelled e"
  proof (cases perception)
    case None
    then show ?thesis by (simp add: locate_top_candidates_def)
  next
    case (Some perceived)
    then show ?thesis
      using top_in_score_all score_all_member by blast
  qed
  show "(\<forall>perceived. perception = Some perceived \<longrightarrow> (\<forall>e \<in> set perceived. \<not> labelled e))
            \<longrightarrow> locate_element_for_intent sm intent perception = None
                \<and> locate_top_candidates sm intent perception k = []"
  proof (cases perception)
    case None
    then show ?thesis
      by (simp add: locate_element_for_intent_def locate_top_candidates_def)
  next
    case (Some perceived)
    then show ?thesis
      using nothing_labelled [of perceived sm intent]
      by (auto simp: locate_element_for_intent_def locate_top_candidates_def)
  qed
qed

lemma sample_matcher_bounded: "matcher_bounded sample_matcher"
  by (simp add: matcher_bounded_def sample_matcher_def)

lemma sample_labels: "\<not> labelled blank_div" "labelled btn_ok"
  by code_simp+


theorem unlabelled_elements_excluded_witness:
  "matcher_bounded sample_matcher
   \<and> \<not> labelled blank_div
   \<and> score_element sample_matcher (normalize_intent click_ok) (tokens (normalize_intent click_ok))
        (extract_quoted click_ok) blank_div None = - 1
   \<and> labelled btn_ok
   \<and> - 0.09 \<le> score_element sample_matcher (normalize_intent click_ok)
        (tokens (normalize_intent click_ok)) (extract_quoted click_ok) btn_ok None
   \<and> locate_element_for_intent sample_matcher click_ok (Some [blank_div, blank_div]) = None"
proof -
  note inst = unlabelled_elements_excluded [OF sample_matcher_bounded,
      of _ "normalize_intent click_ok" "tokens (normalize_intent click_ok)"
        "extract_quoted click_ok" None click_ok "Some [blank_div, blank_div]" 5]
  have "\<forall>perceived. Some [blank_div, blank_div] = Some perceived
          \<longrightarrow> (\<forall>e \<in> set perceived. \<not> labelled e)"
    using sample_labels(1) by simp
  with inst [of blank_div] inst [of btn_ok] sample_labels sample_matcher_bounded
  show ?thesis
    by simp
qed

text \<open>
  C7 (as amended). For every list of quoted literals and every element, the score is
  the score without literals plus \<open>0.30\<close> exactly when the first literal, lower-cased,
  is not empty and equals one of the element's four trimmed label fields, lower-cased.
  The other literals of the intent earn nothing.
\<close>

theorem literal_bonus_first_only:
  "score_element sm n t quoted el db
   = score_element sm n t [] el db + (if first_literal_matches quoted el then 0.30 else 0)"
proof (cases "labelled el")
  case True
  have "\<not> first_literal_matches [] el"
    by (simp add: first_literal_matches_def)
  then show ?thesis
    by (simp add: score_element_split [OF True])
next
  case False
  then show ?thesis
    using unlabelled_no_match [of el quoted] by (simp add: score_element_unlabelled)
qed


lemma sample_literal: "first_literal_matches (extract_quoted click_ok) btn_ok"
  by code_simp


theorem literal_bonus_first_only_witness:
  "first_literal_matches (extract_quoted click_ok) btn_ok
   \<and> score_element sample_matcher (normalize_intent click_ok) (tokens (normalize_intent click_ok))
        (extract_quoted click_ok) btn_ok None
     = score_element sample_matcher (normalize_intent click_ok) (tokens (normalize_intent click_ok))
        [] btn_ok None + 0.30"
  using literal_bonus_first_only [of sample_matcher "normalize_intent click_ok"
      "tokens (normalize_intent click_ok)" "extract_quoted click_ok" btn_ok None] sample_literal
  by simp

text \<open>
  The claim as it was stated fails: \<open>Click 'Save' or 'OK'\<close> has the literals \<open>Save\<close>
  and \<open>OK\<close>; the button labelled \<open>OK\<close> equals the second one, and its score is the
  score without any literal.
\<close>

lemma save_or_ok_norm:
  "normalize_intent save_or_ok = ''click 'save' or '' @ quote ''ok''"
  by code_simp

lemma save_or_ok_tokens:
  "tokens (''click 'save' or '' @ quote ''ok'') = [''click'', ''save'', ''ok'']"
  by code_simp

lemma save_or_ok_quoted: "extract_quoted save_or_ok = [''Save'', ''OK'']"
  by code_simp

lemma save_or_ok_scores:
  "score_element sample_matcher (''click 'save' or '' @ quote ''ok'') [''click'', ''save'', ''ok'']
        [''Save'', ''OK''] btn_ok None = 23 / 75"
  "score_element sample_matcher (''click 'save' or '' @ quote ''ok'') [''click'', ''save'', ''ok'']
        [] btn_ok None = 23 / 75"
  by code_simp+


theorem literal_bonus_first_only_counterexample:
  "extract_quoted save_or_ok = [''Save'', ''OK'']
   \<and> lower ''OK'' = lower (strip (or_empty (el_text btn_ok)))
   \<and> score_element sample_matcher (normalize_intent save_or_ok) (tokens (normalize_intent save_or_ok))
        (extract_quoted save_or_ok) btn_ok None
     = score_element sample_matcher (normalize_intent save_or_ok) (tokens (normalize_intent save_or_ok))
        [] btn_ok None"
proof -
  have "lower ''OK'' = lower (strip (or_empty (el_text btn_ok)))"
    by code_simp
  then show ?thesis
    by (simp only: save_or_ok_norm save_or_ok_tokens save_or_ok_quoted save_or_ok_scores)
qed

text \<open>
  C6 (as amended). In a snapshot with a dialog-role element wider and higher than 10
  there are dialog bounds, and of two elements with the same text, aria-label, title and
  tooltip, one inside the bounds and one not, the outside one never scores higher --
  for every intent that does not signal both an activation (click, open, create,
  delete, submit) and a fill (fill, input, type), and for every intent when the two
  elements also have the same role and tag.
\<close>

theorem dialog_scope_preferred:
  assumes dialog: "d \<in> set perceived" "lower (or_empty (el_role d)) = ''dialog''"
      "or_zero (el_width d) > 10" "or_zero (el_height d) > 10"
    and same: "el_text e_in = el_text e_out" "el_aria_label e_in = el_aria_label e_out"
      "el_title e_in = el_title e_out" "el_tooltip e_in = el_tooltip e_out"
    and kind: "\<not> (activation_intent n \<and> fill_intent n)
        \<or> (lower (or_empty (el_role e_in)) = lower (or_empty (el_role e_out))
            \<and> lower (or_empty (el_tag e_in)) = lower (or_empty (el_tag e_out)))"
  shows "\<exists>b. find_dialog_bounds perceived = Some b
           \<and> (inside b e_in \<and> \<not> inside b e_out
                \<longrightarrow> score_element sm n t q e_out (find_dialog_bounds perceived)
                    \<le> score_element sm n t q e_in (find_dialog_bounds perceived))"
proof -
  obtain b where b: "find_dialog_bounds perceived = Some b"
    using find_dialog_bounds_some [OF dialog] by blast
  have fields: "label_fields e_in = label_fields e_out"
    using same by (simp add: label_fields_def)
  have "score_element sm n t q e_out (Some b) \<le> score_element sm n t q e_in (Some b)"
    if io: "inside b e_in" "\<not> inside b e_out"
  proof (cases "labelled e_in")
    case False
    then have "\<not> labelled e_out"
      using fields by (simp add: labelled_def)
    with False show ?thesis
      by (simp add: score_element_unlabelled)
  next
    case True
    then have lab: "labelled e_out"
      using fields by (simp add: labelled_def)
    have core: "core_score sm n t e_in = core_score sm n t e_out"
      using fields by (simp add: core_score_def)
    have lit: "first_literal_matches q e_in = first_literal_matches q e_out"
      by (simp only: first_literal_matches_def fields)
    have long: "long_penalty e_in = long_penalty e_out"
      using fields same by (simp add: long_penalty_def)
    have dlg: "dialog_adjustment (Some b) e_in = 0.08" "dialog_adjustment (Some b) e_out = - 0.04"
      using io by (simp_all add: dialog_adjustment_def)
    have "role_bonus n e_out \<le> role_bonus n e_in + 0.12"
    proof (cases "activation_intent n \<and> fill_intent n")
      case True
      with kind show ?thesis
        using role_bonus_same [of e_in e_out n] by auto
    next
      case False
      then show ?thesis
        using role_bonus_one_kind [of n e_out] role_bonus_bounds(1) [of n e_in] by simp
    qed
    then show ?thesis
      using core lit long dlg
      by (simp add: score_element_split [OF True] score_element_split [OF lab])
  qed
  with b show ?thesis
    by simp
qed


lemma click_ok_parts:
  "normalize_intent click_ok = ''click '' @ quote ''ok''"
  "tokens (''click '' @ quote ''ok'') = [''click'', ''ok'']"
  "extract_quoted click_ok = [''OK'']"
  by code_simp+

lemma click_ok_kind:
  "\<not> (activation_intent (''click '' @ quote ''ok'') \<and> fill_intent (''click '' @ quote ''ok''))"
  by code_simp

lemma ok_dialog:
  "lower (or_empty (el_role new_project_dialog)) = ''dialog''"
  "or_zero (el_width new_project_dialog) > 10"
  "or_zero (el_height new_project_dialog) > 10"
  "find_dialog_bounds [new_project_dialog, ok_inside, btn_ok] = Some (100, 100, 400, 300)"
  "inside (100, 100, 400, 300) ok_inside" "\<not> inside (100, 100, 400, 300) btn_ok"
  "el_text ok_inside = el_text btn_ok"
  "el_aria_label ok_inside = el_aria_label btn_ok"
  "el_title ok_inside = el_title btn_ok"
  "el_tooltip ok_inside = el_tooltip btn_ok"
  by code_simp+


theorem dialog_scope_preferred_witness:
  "find_dialog_bounds [new_project_dialog, ok_inside, btn_ok] = Some (100, 100, 400, 300)
   \<and> inside (100, 100, 400, 300) ok_inside
   \<and> \<not> inside (100, 100, 400, 300) btn_ok
   \<and> score_element sample_matcher (normalize_intent click_ok) (tokens (normalize_intent click_ok))
        (extract_quoted click_ok) btn_ok (find_dialog_bounds [new_project_dialog, ok_inside, btn_ok])
     \<le> score_element sample_matcher (normalize_intent click_ok) (tokens (normalize_intent click_ok))
        (extract_quoted click_ok) ok_inside (find_dialog_bounds [new_project_dialog, ok_inside, btn_ok])"
proof -
  have d: "new_project_dialog \<in> set [new_project_dialog, ok_inside, btn_ok]"
    by simp
  have kind: "\<not> (activation_intent (normalize_intent click_ok) \<and> fill_intent (normalize_intent click_ok))
      \<or> (lower (or_empty (el_role ok_inside)) = lower (or_empty (el_role btn_ok))
          \<and> lower (or_empty (el_tag ok_inside)) = lower (or_empty (el_tag btn_ok)))"
    using click_ok_kind by (simp add: click_ok_parts(1))
  from dialog_scope_preferred [OF d ok_dialog(1,2,3) ok_dialog(7,8,9,10) kind,
      of sample_matcher "tokens (normalize_intent click_ok)" "extract_quoted click_ok"]
  show ?thesis
    using ok_dialog(4,5,6) by simp
qed

text \<open>
  The claim as it was stated fails for an intent that signals both kinds of action:
  for \<open>Click the 'Name' input\<close>, an element with role button and tag input outside the
  dialog earns \<open>0.06 + 0.10 - 0.04\<close>, more than the \<open>0.08\<close> of an element with the same
  label and neither role nor tag bonus inside it.
\<close>

lemma click_name_input_parts:
  "normalize_intent click_name_input = ''click the 'name' input''"
  "tokens ''click the 'name' input'' = [''click'', ''name'', ''input'']"
  "extract_quoted click_name_input = [''Name'']"
  by code_simp+

lemma sample_dialog_bounds:
  "find_dialog_bounds [new_project_dialog, name_inside, name_outside] = Some (100, 100, 400, 300)"
  by code_simp

lemma name_scores:
  "score_element sample_matcher ''click the 'name' input'' [''click'', ''name'', ''input'']
     [''Name''] name_inside (Some (100, 100, 400, 300)) = 2597 / 3900"
  "score_element sample_matcher ''click the 'name' input'' [''click'', ''name'', ''input'']
     [''Name''] name_outside (Some (100, 100, 400, 300)) = 2753 / 3900"
  by code_simp+

lemma name_geometry:
  "inside (100, 100, 400, 300) name_inside" "\<not> inside (100, 100, 400, 300) name_outside"
  "el_text name_inside = el_text name_outside"
  "el_aria_label name_inside = el_aria_label name_outside"
  "el_title name_inside = el_title name_outside"
  "el_tooltip name_inside = el_tooltip name_outside"
  by code_simp+


theorem dialog_scope_preferred_counterexample:
  "find_dialog_bounds [new_project_dialog, name_inside, name_outside] = Some (100, 100, 400, 300)
   \<and> inside (100, 100, 400, 300) name_inside
   \<and> \<not> inside (100, 100, 400, 300) name_outside
   \<and> el_text name_inside = el_text name_outside
   \<and> el_aria_label name_inside = el_aria_label name_outside
   \<and> el_title name_inside = el_title name_outside
   \<and> el_tooltip name_inside = el_tooltip name_outside
   \<and> score_element sample_matcher (normalize_intent click_name_input)
        (tokens (normalize_intent click_name_input)) (extract_quoted click_name_input)
        name_inside (find_dialog_bounds [new_project_dialog, name_inside, name_outside])
     < score_element sample_matcher (normalize_intent click_name_input)
        (tokens (normalize_intent click_name_input)) (extract_quoted click_name_input)
        name_outside (find_dialog_bounds [new_project_dialog, name_inside, name_outside])"
  using name_geometry
  by (simp add: click_name_input_parts sample_dialog_bounds name_scores)

section \<open>The best candidate and the quoted literal\<close>

lemma without_role_terms:
  "label_fields (without_role el) = label_fields el"
  "labelled (without_role el) = labelled el"
  "core_score sm n t (without_role el) = core_score sm n t el"
  "dialog_adjustment db (without_role el) = dialog_adjustment db el"
  "long_penalty (without_role el) = long_penalty el"
  "role_bonus n (without_role el) = 0"
proof -
  show f: "label_fields (without_role el) = label_fields el"
    by (simp add: label_fields_def without_role_def)
  show "labelled (without_role el) = labelled el"
    by (simp only: labelled_def f)
  show "core_score sm n t (without_role el) = core_score sm n t el"
    by (simp only: core_score_def f)
  show "dialog_adjustment db (without_role el) = dialog_adjustment db el"
    by (cases db) (auto simp: dialog_adjustment_def inside_def without_role_def)
  show "long_penalty (without_role el) = long_penalty el"
    unfolding long_penalty_def f by (simp add: without_role_def)
  show "role_bonus n (without_role el) = 0"
    by (simp add: role_bonus_def without_role_def or_empty_def lower_def)
qed

lemma plain_score_split:
  assumes "labelled el"
  shows "score_element sm (normalize_intent intent) (tokens (normalize_intent intent)) q el
           (find_dialog_bounds perceived)
         = plain_score sm intent perceived el + role_bonus (normalize_intent intent) el
           + (if first_literal_matches q el then 0.30 else 0)"
    and "- 0.09 \<le> plain_score sm intent perceived el"
proof -
  have lab: "labelled (without_role el)"
    using assms by (simp add: without_role_terms)
  have none: "\<not> first_literal_matches [] (without_role el)"
    by (simp add: first_literal_matches_def)
  have plain: "plain_score sm intent perceived el
      = core_score sm (normalize_intent intent) (tokens (normalize_intent intent)) el
        + dialog_adjustment (find_dialog_bounds perceived) el - long_penalty el"
    unfolding plain_score_def score_element_split [OF lab]
    using none by (simp add: without_role_terms)
  show "score_element sm (normalize_intent intent) (tokens (normalize_intent intent)) q el
           (find_dialog_bounds perceived)
         = plain_score sm intent perceived el + role_bonus (normalize_intent intent) el
           + (if first_literal_matches q el then 0.30 else 0)"
    unfolding plain score_element_split [OF assms] by simp
  show "- 0.09 \<le> plain_score sm intent perceived el"
    unfolding plain
    using core_score_bounds(1) [of sm "normalize_intent intent" "tokens (normalize_intent intent)" el]
      dialog_adjustment_bounds(1) [of "find_dialog_bounds perceived" el]
      long_penalty_bounds(2) [of el]
    by simp
qed

lemma score_all_iff:
  "(s, f) \<in> set (score_all sm intent perceived)
   \<longleftrightarrow> f \<in> set perceived
       \<and> s = score_element sm (normalize_intent intent) (tokens (normalize_intent intent))
               (extract_quoted intent) f (find_dialog_bounds perceived)
       \<and> - 1 < s"
  by (auto simp: score_all_def Let_def)

lemma sort_key_head_least:
  assumes "sort_key k xs = h # rest" "y \<in> set xs"
  shows "k h \<le> k y"
proof -
  have "sorted (map k (h # rest))"
    using sorted_sort_key [of k xs] assms(1) by simp
  moreover have "y \<in> set (h # rest)"
    using assms set_sort [of k xs] by simp
  ultimately show ?thesis
    by auto
qed


text \<open>
  C5 (as amended). When the first quoted literal of the intent matches a label field
  of exactly one element of the snapshot, that element is the best candidate whatever
  role and tag bonuses the other elements earn, provided none of them exceeds it on the
  remaining terms of the score (similarity, token overlap, dialog adjustment, length
  penalty): the literal bonus \<open>0.30\<close> is above every role and tag bonus.
\<close>

theorem unique_literal_match_wins:
  assumes member: "e \<in> set perceived"
    and match: "first_literal_matches (extract_quoted intent) e"
    and unique: "\<forall>f \<in> set perceived. f \<noteq> e
          \<longrightarrow> \<not> first_literal_matches (extract_quoted intent) f"
    and rest: "\<forall>f \<in> set perceived. f \<noteq> e
          \<longrightarrow> plain_score sm intent perceived f \<le> plain_score sm intent perceived e"
  shows "locate_element_for_intent sm intent (Some perceived) = Some e"
proof -
  let ?score = "\<lambda>f. score_element sm (normalize_intent intent) (tokens (normalize_intent intent))
      (extract_quoted intent) f (find_dialog_bounds perceived)"
  let ?scored = "score_all sm intent perceived"
  have lab: "labelled e"
    using match unlabelled_no_match by blast
  have high: "plain_score sm intent perceived e + 0.30 \<le> ?score e"
    using plain_score_split(1) [OF lab, of sm intent "extract_quoted intent" perceived]
      role_bonus_bounds(1) [of "normalize_intent intent" e] match by simp
  have "- 0.09 \<le> plain_score sm intent perceived e"
    using plain_score_split(2) [OF lab] .
  with high have "- 1 < ?score e"
    by simp
  with member have e_in: "(?score e, e) \<in> set ?scored"
    by (simp add: score_all_iff)
  have lower: "s < ?score e" if "(s, f) \<in> set ?scored" "f \<noteq> e" for s f
  proof -
    from that(1) have f: "f \<in> set perceived" "s = ?score f" "labelled f"
      using score_all_member [of s f sm intent perceived] by (simp_all add: score_all_iff)
    have "\<not> first_literal_matches (extract_quoted intent) f"
      using unique f(1) that(2) by blast
    then have "?score f = plain_score sm intent perceived f + role_bonus (normalize_intent intent) f"
      using plain_score_split(1) [OF f(3), of sm intent "extract_quoted intent" perceived] by simp
    moreover have "role_bonus (normalize_intent intent) f \<le> 0.19"
      by (rule role_bonus_bounds(2))
    moreover have "plain_score sm intent perceived f \<le> plain_score sm intent perceived e"
      using rest f(1) that(2) by blast
    ultimately show ?thesis
      using high f(2) by simp
  qed
  obtain s0 f0 others where sorted: "sort_key (\<lambda>p. - fst p) ?scored = (s0, f0) # others"
  proof (cases "sort_key (\<lambda>p. - fst p) ?scored")
    case Nil
    then have "set ?scored = {}"
      using set_sort [of "\<lambda>p. - fst p" ?scored] by simp
    with e_in show ?thesis by simp
  next
    case (Cons p ps)
    then show ?thesis
      using that [of "fst p" "snd p" ps] by simp
  qed
  have "(s0, f0) \<in> set ?scored"
    using sorted set_sort [of "\<lambda>p. - fst p" ?scored] by (metis list.set_intros(1))
  moreover have "?score e \<le> s0"
    using sort_key_head_least [OF sorted e_in] by simp
  ultimately have "f0 = e"
    using lower [of s0 f0] by fastforce
  with sorted show ?thesis
    by (simp add: locate_element_for_intent_def)
qed


lemma cancel_or_ok:
  "btn_ok \<in> set [btn_cancel, btn_ok]"
  "first_literal_matches [''OK''] btn_ok"
  "\<not> first_literal_matches [''OK''] btn_cancel"
  "btn_cancel \<noteq> btn_ok"
  "find_dialog_bounds [btn_cancel, btn_ok] = None"
  by code_simp+

lemma cancel_or_ok_plain:
  "score_element sample_matcher (''click '' @ quote ''ok'') [''click'', ''ok''] []
     (without_role btn_cancel) None = 11 / 80"
  "score_element sample_matcher (''click '' @ quote ''ok'') [''click'', ''ok''] []
     (without_role btn_ok) None = 43 / 120"
  by code_simp+


theorem unique_literal_match_wins_witness:
  "first_literal_matches (extract_quoted click_ok) btn_ok
   \<and> \<not> first_literal_matches (extract_quoted click_ok) btn_cancel
   \<and> plain_score sample_matcher click_ok [btn_cancel, btn_ok] btn_cancel
       \<le> plain_score sample_matcher click_ok [btn_cancel, btn_ok] btn_ok
   \<and> locate_element_for_intent sample_matcher click_ok (Some [btn_cancel, btn_ok]) = Some btn_ok"
proof -
  have plain: "plain_score sample_matcher click_ok [btn_cancel, btn_ok] btn_cancel
       \<le> plain_score sample_matcher click_ok [btn_cancel, btn_ok] btn_ok"
    unfolding plain_score_def click_ok_parts cancel_or_ok(5) cancel_or_ok_plain by simp
  have match: "first_literal_matches (extract_quoted click_ok) btn_ok"
    and other: "\<not> first_literal_matches (extract_quoted click_ok) btn_cancel"
    using cancel_or_ok(2,3) by (simp_all add: click_ok_parts(3))
  have unique: "\<forall>f \<in> set [btn_cancel, btn_ok]. f \<noteq> btn_ok
          \<longrightarrow> \<not> first_literal_matches (extract_quoted click_ok) f"
    using other by simp
  have rest: "\<forall>f \<in> set [btn_cancel, btn_ok]. f \<noteq> btn_ok
          \<longrightarrow> plain_score sample_matcher click_ok [btn_cancel, btn_ok] f
              \<le> plain_score sample_matcher click_ok [btn_cancel, btn_ok] btn_ok"
    using plain by simp
  from unique_literal_match_wins [OF cancel_or_ok(1) match unique rest] match other plain
  show ?thesis
    by simp
qed


text \<open>
  The claim as it was stated fails: the literal bonus does not dominate the similarity
  and overlap terms. For \<open>Click 'OK'\<close>, an element whose text is \<open>Click 'OK'\<close> does
  not match the literal and scores \<open>0.55 + 0.35\<close>; the button labelled \<open>OK\<close>, the only
  match, scores \<open>449 / 600\<close> with its bonus and is not returned.
\<close>

lemma note_or_ok:
  "\<not> first_literal_matches [''OK''] note_click_ok"
  "note_click_ok \<noteq> btn_ok"
  "find_dialog_bounds [btn_ok, note_click_ok] = None"
  by code_simp+

lemma note_or_ok_scores:
  "score_element sample_matcher (''click '' @ quote ''ok'') [''click'', ''ok''] [''OK'']
     btn_ok None = 449 / 600"
  "score_element sample_matcher (''click '' @ quote ''ok'') [''click'', ''ok''] [''OK'']
     note_click_ok None = 9 / 10"
  by code_simp+


theorem unique_literal_match_wins_counterexample:
  "extract_quoted click_ok = [''OK'']
   \<and> first_literal_matches (extract_quoted click_ok) btn_ok
   \<and> \<not> first_literal_matches (extract_quoted click_ok) note_click_ok
   \<and> note_click_ok \<noteq> btn_ok
   \<and> locate_element_for_intent sample_matcher click_ok (Some [btn_ok, note_click_ok])
       = Some note_click_ok"
proof -
  have "score_all sample_matcher click_ok [btn_ok, note_click_ok]
        = [(449 / 600, btn_ok), (9 / 10, note_click_ok)]"
    unfolding score_all_def Let_def click_ok_parts note_or_ok(3) list.map note_or_ok_scores
    by simp
  then have "locate_element_for_intent sample_matcher click_ok (Some [btn_ok, note_click_ok])
       = Some note_click_ok"
    by (simp add: locate_element_for_intent_def)
  then show ?thesis
    using cancel_or_ok(2) note_or_ok(1,2) by (simp add: click_ok_parts(3))
qed

section \<open>The orchestrator and the recovery state machine\<close>

text \<open>
  C1. \<open>run_plan\<close> imports \<open>recover_step\<close> and its comment on the step record speaks of
  recovery information, but no path of the loop calls it. For a one-step plan whose
  executor fails on the chosen button while a second button with the same label would
  succeed, and whose verification fails as well, the run persists the executor's
  \<open>fail\<close> and \<open>verified = False\<close> and ends: its trace has no stabilizing, no second
  perception and no second executor call. Started at that point with the chosen button
  as the element to avoid, \<open>recover_step\<close> recovers at its first attempt.
\<close>

theorem run_plan_skips_recovery:
  "run_plan sample_matcher (page_with [btn_ok, btn_ok_copy] (succeeds_on btn_ok_copy)) click_ok_plan
     = Completed [EvPerceive 1, EvExecute btn_ok click_ok 1, EvTextVisible ''OK'',
                  EvPersist failed_step_record, EvSleep]
   \<and> fst (recover_step sample_matcher (page_with [btn_ok, btn_ok_copy] (succeeds_on btn_ok_copy)) 1
         click_ok [] (Some btn_ok) 1 2
         [EvPerceive 1, EvExecute btn_ok click_ok 1, EvTextVisible ''OK''])
     = \<lparr>recovered = True, attempts = 1, result = Some success_result\<rparr>"
  by code_simp


end
